theory Spec2Isabelle
  imports Main "HOL-Library.AList"
begin

section \<open>JavaScript values and errors\<close>

text \<open>
  Payloads have the TypeScript type \<open>unknown\<close>.  The model keeps the values that the
  claims need: \<open>undefined\<close>, \<open>null\<close>, booleans, integer-valued numbers, strings over
  8-bit code units, arrays, and plain objects as the list of their own enumerable
  properties in enumeration order.  Fractional numbers are outside the model.
\<close>

datatype jsval =
    JUndefined
  | JNull
  | JBool bool
  | JNum int
  | JStr string
  | JArr "jsval list"
  | JObj "(string \<times> jsval) list"

text \<open>
  \<^verbatim>\<open>packages/core/src/errors.ts\<close>: \<open>WebViewRPCError\<close> extends \<open>Error\<close> with a \<open>code\<close>,
  \<open>WebViewRPCTimeoutError\<close> extends \<open>WebViewRPCError\<close> with a \<open>timeout\<close> and passes the
  fixed code \<open>TIMEOUT\<close> to its super constructor.  An error object is the record of the
  fields its constructors set.
\<close>

record js_error =
  err_name :: string
  err_message :: string
  err_code :: "string option"
  err_timeout :: "nat option"

definition Error :: "string \<Rightarrow> js_error" where
  "Error message =
     \<lparr>err_name = ''Error'', err_message = message, err_code = None, err_timeout = None\<rparr>"

definition WebViewRPCError :: "string \<Rightarrow> string \<Rightarrow> js_error" where
  "WebViewRPCError message code =
     (Error message)\<lparr>err_name := ''WebViewRPCError'', err_code := Some code\<rparr>"

definition WebViewRPCTimeoutError :: "string \<Rightarrow> nat \<Rightarrow> js_error" where
  "WebViewRPCTimeoutError message timeout =
     (WebViewRPCError message ''TIMEOUT'')
       \<lparr>err_name := ''WebViewRPCTimeoutError'', err_timeout := Some timeout\<rparr>"

text \<open>
  Reading \<open>pending.timeoutId\<close> when \<open>pending\<close> is \<open>undefined\<close> throws a \<open>TypeError\<close>; its
  message is the engine's.
\<close>

definition TypeError_timeoutId :: js_error where
  "TypeError_timeoutId =
     (Error ''Cannot read properties of undefined (reading 'timeoutId')'')
       \<lparr>err_name := ''TypeError''\<rparr>"

text \<open>
  The decimal digits of a natural number.
\<close>

definition digit_char :: "nat \<Rightarrow> char" where
  "digit_char d = ''0123456789'' ! d"

function show_nat :: "nat \<Rightarrow> string" where
  "show_nat n = (if n < 10 then [digit_char n] else show_nat (n div 10) @ [digit_char (n mod 10)])"
  by pat_completeness auto
termination
  by (relation "measure id") auto

declare show_nat.simps [simp del]

text \<open>
  A template literal \<open>${n}\<close> applies \<open>Number::toString\<close> (ECMA-262, 6.1.6.1.20) to the
  number.  Numbers are IEEE 754 doubles.  The model deals with the non-negative
  integer-valued ones and writes such a number as the natural number that it is.

  \<open>to_Number v\<close> is the Number value for the natural number \<open>v\<close>: the nearest double,
  ties to the even significand, and \<open>None\<close> for \<open>Infinity\<close>.  Every natural number below
  \<open>2^53\<close> is a double; above, a double has a 53-bit significand \<open>q\<close> and is \<open>q * 2^e\<close>,
  and the natural numbers from \<open>2^1024 - 2^970\<close> on round to \<open>Infinity\<close>.  A natural
  number is a number of the program when it is its own Number value.
\<close>

function bit_length :: "nat \<Rightarrow> nat" where
  "bit_length n = (if n = 0 then 0 else Suc (bit_length (n div 2)))"
  by pat_completeness auto
termination
  by (relation "measure id") auto

declare bit_length.simps [simp del]

definition to_Number :: "nat \<Rightarrow> nat option" where
  "to_Number v =
     (if v < 2 ^ 53 then Some v
      else let e = bit_length v - 53;
               q = v div 2 ^ e;
               r = v mod 2 ^ e;
               q' = (if 2 ^ (e - 1) < r \<or> (r = 2 ^ (e - 1) \<and> odd q) then q + 1 else q)
           in if 2 ^ 1024 \<le> q' * 2 ^ e then None else Some (q' * 2 ^ e))"

definition is_Number :: "nat \<Rightarrow> bool" where
  "is_Number v = (to_Number v = Some v)"

text \<open>
  \<open>Number::toString\<close> of \<open>x\<close> takes integers \<open>n\<close>, \<open>k\<close>, \<open>s\<close> with \<open>k\<close> digits in \<open>s\<close>, with
  \<open>x\<close> the Number value for \<open>s * 10^(n - k)\<close>, and \<open>k\<close> as small as possible; among several
  \<open>s\<close> the engines take the one whose value is closest to \<open>x\<close>.  It prints the digits of
  \<open>s\<close> followed by \<open>n - k\<close> zeros when \<open>n\<close> is at most 21, and \<open>d.ddde+(n-1)\<close> otherwise.

  For an integer-valued \<open>x\<close> of \<open>D\<close> digits the value \<open>s * 10^(n - k)\<close> is an integer: \<open>x\<close>
  itself is such a value with at most \<open>D\<close> digits in \<open>s\<close>, and a value with a fraction
  that rounds to \<open>x\<close> has more.  \<open>shortest x j\<close> looks for that integer among the multiples
  of \<open>10^j\<close> next to \<open>x\<close>, then of \<open>10^(j-1)\<close>, and so on down to \<open>x\<close> itself; it is
  started at \<open>j = D - 1\<close>, that is at \<open>k = 1\<close>.
\<close>

primrec shortest :: "nat \<Rightarrow> nat \<Rightarrow> nat" where
  "shortest x 0 = x"
| "shortest x (Suc j) =
     (let m = 10 ^ Suc j; lo = (x div m) * m; hi = lo + m
      in if to_Number lo = Some x
         then (if to_Number hi = Some x \<and> (hi - x < x - lo \<or> (hi - x = x - lo \<and> odd (x div m)))
               then hi else lo)
         else if to_Number hi = Some x then hi
         else shortest x j)"

definition strip_zeros :: "string \<Rightarrow> string" where
  "strip_zeros ds = rev (dropWhile (\<lambda>c. c = CHR ''0'') (rev ds))"

definition Number_toString :: "nat \<Rightarrow> string" where
  "Number_toString v =
     (case to_Number v of
        None \<Rightarrow> ''Infinity''
      | Some x \<Rightarrow>
          let ds = show_nat (shortest x (length (show_nat x) - 1));
              n = length ds;
              s = strip_zeros ds
          in if n \<le> 21 then ds
             else if length s = 1 then s @ ''e+'' @ show_nat (n - 1)
             else hd s # ''.'' @ tl s @ ''e+'' @ show_nat (n - 1))"

section \<open>Messages\<close>

text \<open>
  The wire vocabulary of \<^verbatim>\<open>core/src/types.ts\<close>: \<open>RequestMessage\<close>, \<open>ResponseMessage\<close> and
  \<open>EventMessage\<close>, each with \<open>id\<close> and an optional \<open>timestamp\<close>.  An absent optional
  \<open>data\<close> is \<open>JUndefined\<close>.  The clients cast what the deserializer returns to \<open>Message\<close>
  and branch on \<open>message.type\<close>; a value whose \<open>type\<close> is none of the three is
  \<open>OtherMessage\<close>.
\<close>

record error_info =
  info_message :: string
  info_code :: string

record request_message =
  req_id :: string
  req_procedure :: string
  req_data :: jsval
  req_timestamp :: "nat option"

record response_message =
  res_id :: string
  res_data :: jsval
  res_error :: "error_info option"
  res_timestamp :: "nat option"

record event_message =
  evt_id :: string
  evt_event :: string
  evt_data :: jsval
  evt_timestamp :: "nat option"

datatype message =
    Request request_message
  | Response response_message
  | Event event_message
  | OtherMessage

section \<open>The default serializer\<close>

text \<open>
  \<^verbatim>\<open>core/src/transport.ts\<close>: \<open>defaultSerializer\<close> is \<open>JSON.stringify\<close> and
  \<open>defaultDeserializer\<close> is \<open>JSON.parse\<close>, both of the JavaScript engine.  They are
  modelled here after ECMA-262 on the values of \<open>jsval\<close>.

  \<open>JSON.stringify\<close> without indentation: \<open>SerializeJSONProperty\<close> gives no text for
  \<open>undefined\<close>; in an array \<open>undefined\<close> is written \<open>null\<close>, in an object a property whose
  value is \<open>undefined\<close> is left out.  \<open>QuoteJSONString\<close> escapes the quote, the backslash
  and the control characters.  An integer-valued number below \<open>10^21\<close> in magnitude is
  written in decimal.
\<close>

definition show_int :: "int \<Rightarrow> string" where
  "show_int i = (if i < 0 then CHR ''-'' # show_nat (nat (- i)) else show_nat (nat i))"

definition hex_char :: "nat \<Rightarrow> char" where
  "hex_char d = ''0123456789abcdef'' ! d"

definition quote_char :: "char \<Rightarrow> string" where
  "quote_char c =
     (if c = CHR 0x08 then [CHR 0x5C, CHR ''b'']
      else if c = CHR 0x09 then [CHR 0x5C, CHR ''t'']
      else if c = CHR 0x0A then [CHR 0x5C, CHR ''n'']
      else if c = CHR 0x0C then [CHR 0x5C, CHR ''f'']
      else if c = CHR 0x0D then [CHR 0x5C, CHR ''r'']
      else if c = CHR 0x22 then [CHR 0x5C, CHR 0x22]
      else if c = CHR 0x5C then [CHR 0x5C, CHR 0x5C]
      else if (of_char c :: nat) < 32
        then [CHR 0x5C, CHR ''u'', CHR ''0'', CHR ''0'',
              hex_char (of_char c div 16), hex_char (of_char c mod 16)]
      else [c])"

definition QuoteJSONString :: "string \<Rightarrow> string" where
  "QuoteJSONString s = CHR 0x22 # concat (map quote_char s) @ [CHR 0x22]"

fun join_commas :: "string list \<Rightarrow> string" where
  "join_commas [] = []"
| "join_commas [x] = x"
| "join_commas (x # y # ys) = x @ CHR '','' # join_commas (y # ys)"

fun SerializeJSONProperty :: "jsval \<Rightarrow> string option"
  and SerializeJSONArray :: "jsval list \<Rightarrow> string list"
  and SerializeJSONObject :: "(string \<times> jsval) list \<Rightarrow> string list" where
  "SerializeJSONProperty JUndefined = None"
| "SerializeJSONProperty JNull = Some ''null''"
| "SerializeJSONProperty (JBool b) = Some (if b then ''true'' else ''false'')"
| "SerializeJSONProperty (JNum n) = Some (show_int n)"
| "SerializeJSONProperty (JStr s) = Some (QuoteJSONString s)"
| "SerializeJSONProperty (JArr vs) = Some (CHR ''['' # join_commas (SerializeJSONArray vs) @ '']'')"
| "SerializeJSONProperty (JObj ps) = Some (CHR ''{'' # join_commas (SerializeJSONObject ps) @ ''}'')"
| "SerializeJSONArray [] = []"
| "SerializeJSONArray (v # vs) =
     (case SerializeJSONProperty v of None \<Rightarrow> ''null'' | Some s \<Rightarrow> s) # SerializeJSONArray vs"
| "SerializeJSONObject [] = []"
| "SerializeJSONObject (p # ps) =
     (case SerializeJSONProperty (snd p) of
        None \<Rightarrow> SerializeJSONObject ps
      | Some s \<Rightarrow> (QuoteJSONString (fst p) @ CHR '':'' # s) # SerializeJSONObject ps)"

definition JSON_stringify :: "jsval \<Rightarrow> string option" where
  "JSON_stringify v = SerializeJSONProperty v"


text \<open>
  \<open>JSON.parse\<close>: a recursive-descent reader of the JSON grammar with the whitespace
  the grammar allows.  The result is an error or the value and the unread text.
  \<open>SyntaxError\<close> is the exception \<open>JSON.parse\<close> throws.  \<open>Unsupported\<close> marks text that
  denotes something outside \<open>jsval\<close> (a number with a fraction or an exponent, an integer
  of magnitude \<open>2^53\<close> or more, a \<open>\u\<close> escape above \<open>00FF\<close>): the model says nothing about
  it.  The recursion is on a fuel argument; \<open>JSON_parse\<close> supplies more fuel than the
  text has characters, and \<open>OutOfFuel\<close> is what is returned should that not suffice.
  Negative zero is read as zero.

  An object is built by \<open>CreateDataProperty\<close> in the order of the text: a key already
  present keeps its place and takes the new value, a new key that is an array index goes
  among the array indices in ascending order, before all other keys, and any other new
  key goes last.  That is the order in which the properties of an object are enumerated.
\<close>

datatype parse_error = SyntaxError | Unsupported | OutOfFuel

definition is_ws :: "char \<Rightarrow> bool" where
  "is_ws c = (c = CHR '' '' \<or> c = CHR 0x09 \<or> c = CHR 0x0A \<or> c = CHR 0x0D)"

definition skip_ws :: "string \<Rightarrow> string" where
  "skip_ws s = dropWhile is_ws s"

definition is_digit :: "char \<Rightarrow> bool" where
  "is_digit c = (48 \<le> (of_char c :: nat) \<and> (of_char c :: nat) \<le> 57)"

definition digit_val :: "char \<Rightarrow> nat" where
  "digit_val c = of_char c - 48"

definition digits_val :: "string \<Rightarrow> nat" where
  "digits_val ds = foldl (\<lambda>acc c. 10 * acc + digit_val c) 0 ds"

definition hex_val :: "char \<Rightarrow> nat option" where
  "hex_val c =
     (let n = (of_char c :: nat) in
      if 48 \<le> n \<and> n \<le> 57 then Some (n - 48)
      else if 97 \<le> n \<and> n \<le> 102 then Some (n - 87)
      else if 65 \<le> n \<and> n \<le> 70 then Some (n - 55)
      else None)"

definition unescape :: "char \<Rightarrow> char option" where
  "unescape e =
     (if e = CHR 0x22 then Some (CHR 0x22)
      else if e = CHR 0x5C then Some (CHR 0x5C)
      else if e = CHR ''/'' then Some (CHR ''/'')
      else if e = CHR ''b'' then Some (CHR 0x08)
      else if e = CHR ''f'' then Some (CHR 0x0C)
      else if e = CHR ''n'' then Some (CHR 0x0A)
      else if e = CHR ''r'' then Some (CHR 0x0D)
      else if e = CHR ''t'' then Some (CHR 0x09)
      else None)"

definition cons_char ::
  "char \<Rightarrow> parse_error + (string \<times> string) \<Rightarrow> parse_error + (string \<times> string)" where
  "cons_char c r = (case r of Inl e \<Rightarrow> Inl e | Inr (s, rest) \<Rightarrow> Inr (c # s, rest))"

definition hex4 :: "char \<Rightarrow> char \<Rightarrow> char \<Rightarrow> char \<Rightarrow> nat option" where
  "hex4 a b c d =
     (case (hex_val a, hex_val b, hex_val c, hex_val d) of
        (Some x1, Some x2, Some x3, Some x4) \<Rightarrow> Some (((x1 * 16 + x2) * 16 + x3) * 16 + x4)
      | _ \<Rightarrow> None)"

fun parse_chars :: "string \<Rightarrow> parse_error + (string \<times> string)" where
  "parse_chars [] = Inl SyntaxError"
| "parse_chars (c # cs) =
     (if c = CHR 0x22 then Inr ([], cs)
      else if c = CHR 0x5C then
        (case cs of
           [] \<Rightarrow> Inl SyntaxError
         | e # cs1 \<Rightarrow>
             if e = CHR ''u'' then
               (case cs1 of
                  a # b # c' # d # cs2 \<Rightarrow>
                    (case hex4 a b c' d of
                       None \<Rightarrow> Inl SyntaxError
                     | Some n \<Rightarrow>
                         if n < 256 then cons_char (char_of n) (parse_chars cs2)
                         else Inl Unsupported)
                | _ \<Rightarrow> Inl SyntaxError)
             else (case unescape e of
                     None \<Rightarrow> Inl SyntaxError
                   | Some ch \<Rightarrow> cons_char ch (parse_chars cs1)))
      else if (of_char c :: nat) < 32 then Inl SyntaxError
      else cons_char c (parse_chars cs))"

definition parse_number :: "string \<Rightarrow> parse_error + (jsval \<times> string)" where
  "parse_number s =
     (let neg = (s \<noteq> [] \<and> hd s = CHR ''-'');
          s1 = (if neg then tl s else s);
          ds = takeWhile is_digit s1;
          rest = dropWhile is_digit s1
      in if ds = [] then Inl SyntaxError
         else if hd ds = CHR ''0'' \<and> tl ds \<noteq> [] then Inl SyntaxError
         else if rest \<noteq> [] \<and> (hd rest = CHR ''.'' \<or> hd rest = CHR ''e'' \<or> hd rest = CHR ''E'')
           then Inl Unsupported
         else if 2 ^ 53 \<le> digits_val ds then Inl Unsupported
         else Inr (JNum (if neg then - int (digits_val ds) else int (digits_val ds)), rest))"

definition parse_literal :: "string \<Rightarrow> parse_error + (jsval \<times> string)" where
  "parse_literal s =
     (if take 4 s = ''true'' then Inr (JBool True, drop 4 s)
      else if take 5 s = ''false'' then Inr (JBool False, drop 5 s)
      else if take 4 s = ''null'' then Inr (JNull, drop 4 s)
      else Inl SyntaxError)"

definition is_array_index :: "string \<Rightarrow> bool" where
  "is_array_index k =
     (k \<noteq> [] \<and> list_all is_digit k \<and> (hd k \<noteq> CHR ''0'' \<or> tl k = []) \<and>
      digits_val k < 2 ^ 32 - 1)"

fun insert_index :: "string \<Rightarrow> jsval \<Rightarrow> (string \<times> jsval) list \<Rightarrow> (string \<times> jsval) list" where
  "insert_index k v [] = [(k, v)]"
| "insert_index k v (p # ps) =
     (if is_array_index (fst p) \<and> digits_val (fst p) < digits_val k
      then p # insert_index k v ps
      else (k, v) # p # ps)"

definition CreateDataProperty ::
  "string \<Rightarrow> jsval \<Rightarrow> (string \<times> jsval) list \<Rightarrow> (string \<times> jsval) list" where
  "CreateDataProperty k v ps =
     (if map_of ps k \<noteq> None then AList.update k v ps
      else if is_array_index k then insert_index k v ps
      else ps @ [(k, v)])"

fun parse_value :: "nat \<Rightarrow> string \<Rightarrow> parse_error + (jsval \<times> string)"
  and parse_elements :: "nat \<Rightarrow> jsval list \<Rightarrow> string \<Rightarrow> parse_error + (jsval \<times> string)"
  and parse_members ::
    "nat \<Rightarrow> (string \<times> jsval) list \<Rightarrow> string \<Rightarrow> parse_error + (jsval \<times> string)" where
  "parse_value 0 s = Inl OutOfFuel"
| "parse_value (Suc n) s =
     (case skip_ws s of
        [] \<Rightarrow> Inl SyntaxError
      | c # cs \<Rightarrow>
          if c = CHR ''{'' then
            (case skip_ws cs of
               [] \<Rightarrow> Inl SyntaxError
             | d # ds \<Rightarrow> if d = CHR ''}'' then Inr (JObj [], ds) else parse_members n [] (d # ds))
          else if c = CHR ''['' then
            (case skip_ws cs of
               [] \<Rightarrow> Inl SyntaxError
             | d # ds \<Rightarrow> if d = CHR '']'' then Inr (JArr [], ds) else parse_elements n [] (d # ds))
          else if c = CHR 0x22 then
            (case parse_chars cs of
               Inl e \<Rightarrow> Inl e
             | Inr (str, rest) \<Rightarrow> Inr (JStr str, rest))
          else if c = CHR ''-'' \<or> is_digit c then parse_number (c # cs)
          else parse_literal (c # cs))"
| "parse_elements 0 acc s = Inl OutOfFuel"
| "parse_elements (Suc n) acc s =
     (case parse_value n s of
        Inl e \<Rightarrow> Inl e
      | Inr (v, rest) \<Rightarrow>
          (case skip_ws rest of
             [] \<Rightarrow> Inl SyntaxError
           | c # cs \<Rightarrow>
               if c = CHR '','' then parse_elements n (acc @ [v]) cs
               else if c = CHR '']'' then Inr (JArr (acc @ [v]), cs)
               else Inl SyntaxError))"
| "parse_members 0 acc s = Inl OutOfFuel"
| "parse_members (Suc n) acc s =
     (case skip_ws s of
        [] \<Rightarrow> Inl SyntaxError
      | q # cs \<Rightarrow>
          if q \<noteq> CHR 0x22 then Inl SyntaxError
          else
            (case parse_chars cs of
               Inl e \<Rightarrow> Inl e
             | Inr (key, rest) \<Rightarrow>
                 (case skip_ws rest of
                    [] \<Rightarrow> Inl SyntaxError
                  | colon # rest1 \<Rightarrow>
                      if colon \<noteq> CHR '':'' then Inl SyntaxError
                      else
                        (case parse_value n rest1 of
                           Inl e \<Rightarrow> Inl e
                         | Inr (v, rest2) \<Rightarrow>
                             (case skip_ws rest2 of
                                [] \<Rightarrow> Inl SyntaxError
                              | c # rest3 \<Rightarrow>
                                  if c = CHR '','' then
                                    parse_members n (CreateDataProperty key v acc) rest3
                                  else if c = CHR ''}'' then
                                    Inr (JObj (CreateDataProperty key v acc), rest3)
                                  else Inl SyntaxError)))))"

definition JSON_parse :: "string \<Rightarrow> parse_error + jsval" where
  "JSON_parse text =
     (case parse_value (Suc (length text)) text of
        Inl e \<Rightarrow> Inl e
      | Inr (v, rest) \<Rightarrow> if skip_ws rest = [] then Inr v else Inl SyntaxError)"


text \<open>
  The object literals that the clients put on the wire.  A property whose value is
  \<open>undefined\<close> stands for an absent one as well; \<open>JSON.stringify\<close> writes neither.
  A property is read with \<open>get_property\<close>, which gives \<open>undefined\<close> when there is none.
\<close>

definition defaultSerializer :: "jsval \<Rightarrow> string option" where
  "defaultSerializer data = JSON_stringify data"

definition defaultDeserializer :: "string \<Rightarrow> parse_error + jsval" where
  "defaultDeserializer data = JSON_parse data"

definition timestamp_property :: "nat option \<Rightarrow> (string \<times> jsval) list" where
  "timestamp_property ts = (case ts of None \<Rightarrow> [] | Some t \<Rightarrow> [(''timestamp'', JNum (int t))])"

definition request_object :: "request_message \<Rightarrow> jsval" where
  "request_object m =
     JObj ([(''id'', JStr (req_id m)), (''type'', JStr ''request''),
            (''procedure'', JStr (req_procedure m)), (''data'', req_data m)] @
           timestamp_property (req_timestamp m))"

definition error_object :: "error_info \<Rightarrow> jsval" where
  "error_object e = JObj [(''message'', JStr (info_message e)), (''code'', JStr (info_code e))]"

definition response_object :: "response_message \<Rightarrow> jsval" where
  "response_object m =
     JObj ([(''id'', JStr (res_id m)), (''type'', JStr ''response''), (''data'', res_data m),
            (''error'', (case res_error m of None \<Rightarrow> JUndefined | Some e \<Rightarrow> error_object e))] @
           timestamp_property (res_timestamp m))"

definition event_object :: "event_message \<Rightarrow> jsval" where
  "event_object m =
     JObj ([(''id'', JStr (evt_id m)), (''type'', JStr ''event''),
            (''event'', JStr (evt_event m)), (''data'', evt_data m)] @
           timestamp_property (evt_timestamp m))"

definition get_property :: "jsval \<Rightarrow> string \<Rightarrow> jsval" where
  "get_property v k =
     (case v of
        JObj ps \<Rightarrow> (case map_of ps k of None \<Rightarrow> JUndefined | Some x \<Rightarrow> x)
      | _ \<Rightarrow> JUndefined)"

section \<open>The state of one client\<close>

text \<open>
  Handlers are JavaScript functions, compared by reference: a handler is its reference,
  and what it does when called is a parameter \<open>run\<close> of the functions that call it.  A call
  returns a value (also through a promise that fulfils), throws synchronously, or returns
  a promise that rejects.  Handlers are taken not to call back into the client while they
  run.
\<close>

type_synonym handler = nat

datatype outcome = Returns jsval | Throws js_error | Rejects js_error

type_synonym behaviour = "handler \<Rightarrow> jsval \<Rightarrow> outcome"

text \<open>
  A pending entry holds the \<open>resolve\<close> and \<open>reject\<close> functions of the caller's promise
  (both are the promise's reference here) and the handle \<open>setTimeout\<close> returned.
\<close>

record pending =
  resolve :: nat
  reject :: nat
  timeoutId :: nat

datatype promise_state = Pending | Fulfilled jsval | Rejected js_error

text \<open>The callback given to \<open>setTimeout\<close> closes over the request's \<open>id\<close> and \<open>reject\<close>.\<close>

record timer_callback =
  timer_delay :: nat
  timer_id :: string
  timer_reject :: nat

text \<open>What a client does to its surroundings, in order.\<close>

datatype effect =
    ResolveCall nat jsval
  | RejectCall nat js_error
  | ClearTimeout nat
  | OnError js_error
  | PostMessage string
  | Invoke handler jsval

text \<open>
  \<open>pendingRequests\<close> is a JavaScript \<open>Map\<close>: an association list in insertion order, where
  \<open>set\<close> updates in place or appends (\<open>AList.update\<close>) and \<open>delete\<close> removes the key
  (\<open>AList.delete\<close>).  \<open>setObjects\<close> is the heap of \<open>Set\<close> objects, each the list of its
  members in insertion order; the registries point into it, as do the closures that
  registration returns.
\<close>

record client =
  pendingRequests :: "(string \<times> pending) list"
  promises :: "nat \<rightharpoonup> promise_state"
  timers :: "nat \<rightharpoonup> timer_callback"
  setObjects :: "nat \<Rightarrow> handler list"
  nextPromise :: nat
  nextTimer :: nat
  nextSet :: nat
  trace :: "effect list"

text \<open>
  The options of a client.  \<open>serializer\<close> and \<open>deserializer\<close> are pluggable and may
  throw; \<open>onError\<close> is optional, and the sink, when there is one, records the error and
  returns.  \<open>timeout\<close> is a non-negative integer-valued number of milliseconds.
\<close>

record config =
  serializer :: "message \<Rightarrow> js_error + string"
  deserializer :: "string \<Rightarrow> js_error + message"
  timeout :: nat
  onError :: bool

definition emit_effect :: "effect \<Rightarrow> ('a client_scheme) \<Rightarrow> ('a client_scheme)" where
  "emit_effect e s = s\<lparr>trace := trace s @ [e]\<rparr>"

text \<open>\<open>config.onError?.(error)\<close>\<close>

definition call_onError :: "config \<Rightarrow> js_error \<Rightarrow> ('a client_scheme) \<Rightarrow> ('a client_scheme)" where
  "call_onError cfg error s = (if onError cfg then emit_effect (OnError error) s else s)"

text \<open>Settling a promise that is no longer pending changes nothing.\<close>

definition resolve_call :: "nat \<Rightarrow> jsval \<Rightarrow> ('a client_scheme) \<Rightarrow> ('a client_scheme)" where
  "resolve_call p v s =
     (let s1 = emit_effect (ResolveCall p v) s in
      if promises s1 p = Some Pending then s1\<lparr>promises := (promises s1)(p \<mapsto> Fulfilled v)\<rparr>
      else s1)"

definition reject_call :: "nat \<Rightarrow> js_error \<Rightarrow> ('a client_scheme) \<Rightarrow> ('a client_scheme)" where
  "reject_call p e s =
     (let s1 = emit_effect (RejectCall p e) s in
      if promises s1 p = Some Pending then s1\<lparr>promises := (promises s1)(p \<mapsto> Rejected e)\<rparr>
      else s1)"

definition clearTimeout :: "nat \<Rightarrow> ('a client_scheme) \<Rightarrow> ('a client_scheme)" where
  "clearTimeout t s = (emit_effect (ClearTimeout t) s)\<lparr>timers := (timers s)(t := None)\<rparr>"

section \<open>Responses\<close>

text \<open>
  \<open>handleResponse\<close> is the same text in \<^verbatim>\<open>packages/web/src/client.ts\<close> (lines 141-157) and in
  the native client (lines 136-152).
\<close>

definition handleResponse :: "response_message \<Rightarrow> ('a client_scheme) \<Rightarrow> ('a client_scheme)" where
  "handleResponse message s =
     (case map_of (pendingRequests s) (res_id message) of
        None \<Rightarrow> s
      | Some pending \<Rightarrow>
          let s1 = clearTimeout (timeoutId pending) s;
              s2 = s1\<lparr>pendingRequests := AList.delete (res_id message) (pendingRequests s1)\<rparr>
          in (case res_error message of
                Some error \<Rightarrow>
                  reject_call (reject pending)
                    (WebViewRPCError (info_message error) (info_code error)) s2
              | None \<Rightarrow> resolve_call (resolve pending) (res_data message) s2))"

text \<open>
  The callback of the timer armed by a call (\<^verbatim>\<open>client.ts\<close> lines 236-241, native client
  lines 243-246), run when timer \<open>t\<close> expires while it is still armed.
\<close>

definition timeout_message :: "nat \<Rightarrow> string" where
  "timeout_message ms = ''Request timed out after '' @ Number_toString ms @ ''ms''"

definition timerFires :: "config \<Rightarrow> nat \<Rightarrow> ('a client_scheme) \<Rightarrow> ('a client_scheme)" where
  "timerFires cfg t s =
     (case timers s t of
        None \<Rightarrow> s
      | Some cb \<Rightarrow>
          let s1 = s\<lparr>timers := (timers s)(t := None)\<rparr>;
              s2 = s1\<lparr>pendingRequests := AList.delete (timer_id cb) (pendingRequests s1)\<rparr>
          in reject_call (timer_reject cb)
               (WebViewRPCTimeoutError (timeout_message (timeout cfg)) (timeout cfg)) s2)"

section \<open>The web client\<close>

text \<open>
  \<^verbatim>\<open>packages/web/src/client.ts\<close>, \<open>createWebClient\<close>.  \<open>eventHandlers\<close> maps an event name to a
  \<open>Set\<close> object, \<open>procedureHandlers\<close> a procedure name to one function.  \<open>window\<close> says
  whether the global \<open>window\<close> exists, \<open>isWebView\<close> whether it also carries the bridge
  object \<open>ReactNativeWebView\<close>; both are read when the client is created.  \<open>listening\<close>
  says whether \<open>handleMessage\<close> is attached to the window's \<open>message\<close> event.
\<close>

record web_client = client +
  eventHandlers :: "string \<rightharpoonup> nat"
  procedureHandlers :: "string \<rightharpoonup> handler"
  window :: bool
  isWebView :: bool
  listening :: bool

definition createWebClient :: "bool \<Rightarrow> bool \<Rightarrow> web_client" where
  "createWebClient hasWindow hasBridge =
     \<lparr>pendingRequests = [], promises = Map.empty, timers = Map.empty,
      setObjects = (\<lambda>_. []), nextPromise = 0, nextTimer = 0, nextSet = 0, trace = [],
      eventHandlers = Map.empty, procedureHandlers = Map.empty,
      window = hasWindow, isWebView = (hasWindow \<and> hasBridge), listening = hasWindow\<rparr>"

text \<open>
  \<open>postToNative\<close> (lines 105-117).  The bridge's own \<open>postMessage\<close> is taken to accept
  every string.
\<close>

definition postToNative :: "config \<Rightarrow> message \<Rightarrow> web_client \<Rightarrow> web_client" where
  "postToNative cfg message s =
     (if \<not> isWebView s then s
      else (case serializer cfg message of
              Inr serialized \<Rightarrow> emit_effect (PostMessage serialized) s
            | Inl error \<Rightarrow> call_onError cfg error s))"

text \<open>
  The body of the loop \<open>for (const handler of handlers)\<close> of \<open>handleEvent\<close>: the call in a
  \<open>try\<close>, a thrown error handed to \<open>onError\<close>.  A rejected promise that a listener returns
  is not caught there.
\<close>

definition invoke_listener ::
  "config \<Rightarrow> behaviour \<Rightarrow> jsval \<Rightarrow> handler \<Rightarrow> ('a client_scheme) \<Rightarrow> ('a client_scheme)" where
  "invoke_listener cfg run data handler s =
     (let s1 = emit_effect (Invoke handler data) s in
      case run handler data of
        Throws error \<Rightarrow> call_onError cfg error s1
      | Returns _ \<Rightarrow> s1
      | Rejects _ \<Rightarrow> s1)"

text \<open>\<open>handleEvent\<close> (lines 162-175).\<close>

definition web_handleEvent ::
  "config \<Rightarrow> behaviour \<Rightarrow> event_message \<Rightarrow> web_client \<Rightarrow> web_client" where
  "web_handleEvent cfg run message s =
     (case eventHandlers s (evt_event message) of
        None \<Rightarrow> s
      | Some handlers \<Rightarrow>
          if setObjects s handlers = [] then s
          else fold (invoke_listener cfg run (evt_data message)) (setObjects s handlers) s)"

text \<open>
  \<open>handleRequest\<close> (lines 180-218).  It is an \<open>async\<close> function: the handler is looked up
  and called at once, and what follows the \<open>await\<close> runs when the handler has settled.
  The model runs the continuation right after the call.
\<close>

definition no_handler_response :: "request_message \<Rightarrow> nat option \<Rightarrow> message" where
  "no_handler_response message ts =
     Response \<lparr>res_id = req_id message, res_data = JUndefined,
       res_error = Some \<lparr>info_message =
           ''No handler registered for procedure: '' @ req_procedure message,
         info_code = ''NO_HANDLER''\<rparr>,
       res_timestamp = ts\<rparr>"

definition result_response :: "request_message \<Rightarrow> jsval \<Rightarrow> nat option \<Rightarrow> message" where
  "result_response message result ts =
     Response \<lparr>res_id = req_id message, res_data = result, res_error = None,
       res_timestamp = ts\<rparr>"

definition handler_error_response :: "request_message \<Rightarrow> js_error \<Rightarrow> nat option \<Rightarrow> message" where
  "handler_error_response message error ts =
     Response \<lparr>res_id = req_id message, res_data = JUndefined,
       res_error = Some \<lparr>info_message = err_message error, info_code = ''HANDLER_ERROR''\<rparr>,
       res_timestamp = ts\<rparr>"

definition web_handleRequest_catch ::
  "config \<Rightarrow> request_message \<Rightarrow> js_error \<Rightarrow> web_client \<Rightarrow> web_client" where
  "web_handleRequest_catch cfg message error s =
     postToNative cfg (handler_error_response message error None) (call_onError cfg error s)"

definition web_handleRequest ::
  "config \<Rightarrow> behaviour \<Rightarrow> request_message \<Rightarrow> web_client \<Rightarrow> web_client" where
  "web_handleRequest cfg run message s =
     (case procedureHandlers s (req_procedure message) of
        None \<Rightarrow> postToNative cfg (no_handler_response message None) s
      | Some handler \<Rightarrow>
          let s1 = emit_effect (Invoke handler (req_data message)) s in
          (case run handler (req_data message) of
             Returns result \<Rightarrow> postToNative cfg (result_response message result None) s1
           | Throws error \<Rightarrow> web_handleRequest_catch cfg message error s1
           | Rejects error \<Rightarrow> web_handleRequest_catch cfg message error s1))"

text \<open>\<open>handleMessage\<close> (lines 122-136); \<open>raw\<close> is \<open>event.data\<close>.\<close>

definition web_handleMessage :: "config \<Rightarrow> behaviour \<Rightarrow> string \<Rightarrow> web_client \<Rightarrow> web_client" where
  "web_handleMessage cfg run raw s =
     (case deserializer cfg raw of
        Inl error \<Rightarrow> call_onError cfg error s
      | Inr message \<Rightarrow>
          (case message of
             Response m \<Rightarrow> handleResponse m s
           | Event m \<Rightarrow> web_handleEvent cfg run m s
           | Request m \<Rightarrow> web_handleRequest cfg run m s
           | OtherMessage \<Rightarrow> s))"

text \<open>The window delivers a \<open>message\<close> event to the listener while it is attached.\<close>

definition web_receive :: "config \<Rightarrow> behaviour \<Rightarrow> string \<Rightarrow> web_client \<Rightarrow> web_client" where
  "web_receive cfg run raw s = (if listening s then web_handleMessage cfg run raw s else s)"

text \<open>
  \<open>call\<close> (lines 223-256).  \<open>corrId\<close> is what \<open>generateCorrelationId()\<close> returned; the
  result is the new state and the promise handed to the caller.
\<close>

definition web_call ::
  "config \<Rightarrow> string \<Rightarrow> jsval \<Rightarrow> string \<Rightarrow> web_client \<Rightarrow> web_client \<times> nat" where
  "web_call cfg procedure data corrId s =
     (let p = nextPromise s;
          s0 = s\<lparr>promises := (promises s)(p \<mapsto> Pending), nextPromise := Suc p\<rparr>
      in if \<not> isWebView s0
         then (reject_call p (WebViewRPCError ''Not running in WebView'' ''NOT_IN_WEBVIEW'') s0, p)
         else
           let t = nextTimer s0;
               s1 = s0\<lparr>timers := (timers s0)(t \<mapsto>
                       \<lparr>timer_delay = timeout cfg, timer_id = corrId, timer_reject = p\<rparr>),
                     nextTimer := Suc t\<rparr>;
               s2 = s1\<lparr>pendingRequests :=
                       AList.update corrId \<lparr>resolve = p, reject = p, timeoutId = t\<rparr>
                         (pendingRequests s1)\<rparr>
           in (postToNative cfg
                 (Request \<lparr>req_id = corrId, req_procedure = procedure, req_data = data,
                    req_timestamp = None\<rparr>) s2, p))"

text \<open>
  \<open>handleNativeEvent\<close> (lines 261-282).  The function it returns closes over the \<open>Set\<close>
  object, the handler and the event name.
\<close>

record unregister_closure =
  un_handlers :: nat
  un_handler :: handler
  un_name :: string

definition set_add :: "handler \<Rightarrow> handler list \<Rightarrow> handler list" where
  "set_add h hs = (if h \<in> set hs then hs else hs @ [h])"

definition set_delete :: "handler \<Rightarrow> handler list \<Rightarrow> handler list" where
  "set_delete h hs = removeAll h hs"

definition web_handleNativeEvent ::
  "string \<Rightarrow> handler \<Rightarrow> web_client \<Rightarrow> web_client \<times> unregister_closure" where
  "web_handleNativeEvent eventName handler s =
     (let s1 = (if eventHandlers s eventName = None
                then s\<lparr>setObjects := (setObjects s)(nextSet s := []),
                       nextSet := Suc (nextSet s),
                       eventHandlers := (eventHandlers s)(eventName \<mapsto> nextSet s)\<rparr>
                else s)
      in case eventHandlers s1 eventName of
           Some handlers \<Rightarrow>
             (s1\<lparr>setObjects := (setObjects s1)(handlers := set_add handler (setObjects s1 handlers))\<rparr>,
              \<lparr>un_handlers = handlers, un_handler = handler, un_name = eventName\<rparr>)
         | None \<Rightarrow> (s1, \<lparr>un_handlers = 0, un_handler = handler, un_name = eventName\<rparr>))"

definition web_unregister_event :: "unregister_closure \<Rightarrow> web_client \<Rightarrow> web_client" where
  "web_unregister_event u s =
     (let s1 = s\<lparr>setObjects := (setObjects s)(un_handlers u :=
                   set_delete (un_handler u) (setObjects s (un_handlers u)))\<rparr>
      in if setObjects s1 (un_handlers u) = []
         then s1\<lparr>eventHandlers := (eventHandlers s1)(un_name u := None)\<rparr>
         else s1)"

text \<open>\<open>emit\<close> (lines 287-303).\<close>

definition web_emit :: "config \<Rightarrow> string \<Rightarrow> jsval \<Rightarrow> string \<Rightarrow> web_client \<Rightarrow> web_client" where
  "web_emit cfg event data corrId s =
     (if \<not> isWebView s then s
      else postToNative cfg
             (Event \<lparr>evt_id = corrId, evt_event = event, evt_data = data, evt_timestamp = None\<rparr>) s)"

text \<open>
  \<open>handleWebProcedure\<close> (lines 308-322): \<open>procedureHandlers.set\<close>, and a returned function
  that closes over the procedure name only.
\<close>

definition handleWebProcedure :: "string \<Rightarrow> handler \<Rightarrow> web_client \<Rightarrow> web_client \<times> string" where
  "handleWebProcedure procedureName handler s =
     (s\<lparr>procedureHandlers := (procedureHandlers s)(procedureName \<mapsto> handler)\<rparr>, procedureName)"

definition web_unregister_procedure :: "string \<Rightarrow> web_client \<Rightarrow> web_client" where
  "web_unregister_procedure procedureName s =
     s\<lparr>procedureHandlers := (procedureHandlers s)(procedureName := None)\<rparr>"

text \<open>
  \<open>cleanup\<close> (lines 327-343).  The body of its loop over \<open>pendingRequests\<close>, and of the
  native client's, is \<open>clearTimeout(pending.timeoutId)\<close> and then \<open>pending.reject\<close> with
  a new error.
\<close>

definition cleanup_entry ::
  "js_error \<Rightarrow> string \<times> pending \<Rightarrow> ('a client_scheme) \<Rightarrow> ('a client_scheme)" where
  "cleanup_entry reason entry s =
     reject_call (reject (snd entry)) reason (clearTimeout (timeoutId (snd entry)) s)"

definition web_cleanup :: "web_client \<Rightarrow> web_client" where
  "web_cleanup s =
     (let s1 = fold (cleanup_entry (WebViewRPCError ''Client cleanup'' ''CLEANUP''))
                 (pendingRequests s) s;
          s2 = s1\<lparr>pendingRequests := []\<rparr>;
          s3 = s2\<lparr>eventHandlers := Map.empty, procedureHandlers := Map.empty\<rparr>
      in if window s3 then s3\<lparr>listening := False\<rparr> else s3)"

section \<open>The native client\<close>

text \<open>
  \<open>createNativeClient\<close>.  One registry, \<open>nativeHandlers\<close>, maps a procedure or event name
  to a \<open>Set\<close> object.  \<open>webView\<close> says whether \<open>webViewRef.current\<close> is set; the host
  application changes it.
\<close>

record native_client = client +
  nativeHandlers :: "string \<rightharpoonup> nat"
  webView :: bool

definition createNativeClient :: "bool \<Rightarrow> native_client" where
  "createNativeClient hasWebView =
     \<lparr>pendingRequests = [], promises = Map.empty, timers = Map.empty,
      setObjects = (\<lambda>_. []), nextPromise = 0, nextTimer = 0, nextSet = 0, trace = [],
      nativeHandlers = Map.empty, webView = hasWebView\<rparr>"

definition message_id :: "message \<Rightarrow> string" where
  "message_id message =
     (case message of
        Request m \<Rightarrow> req_id m
      | Response m \<Rightarrow> res_id m
      | Event m \<Rightarrow> evt_id m
      | OtherMessage \<Rightarrow> [])"

definition is_event :: "message \<Rightarrow> bool" where
  "is_event message = (case message of Event _ \<Rightarrow> True | _ \<Rightarrow> False)"

definition is_request :: "message \<Rightarrow> bool" where
  "is_request message = (case message of Request _ \<Rightarrow> True | _ \<Rightarrow> False)"

text \<open>
  \<open>postMessage\<close> (lines 80-112) rejects the message's own pending entry in two places:
  \<open>pendingRequests.get(message.id)!\<close>, \<open>clearTimeout\<close>, \<open>delete\<close>, \<open>reject\<close>.  The
  non-null assertion checks nothing: with no entry the read of \<open>timeoutId\<close> throws.  The
  second component of the result is what was thrown, if anything.
\<close>

definition reject_own_pending ::
  "string \<Rightarrow> js_error \<Rightarrow> native_client \<Rightarrow> native_client \<times> js_error option" where
  "reject_own_pending mid error s =
     (case map_of (pendingRequests s) mid of
        None \<Rightarrow> (s, Some TypeError_timeoutId)
      | Some pending \<Rightarrow>
          let s1 = clearTimeout (timeoutId pending) s;
              s2 = s1\<lparr>pendingRequests := AList.delete mid (pendingRequests s1)\<rparr>
          in (reject_call (reject pending) error s2, None))"

definition native_postMessage ::
  "config \<Rightarrow> message \<Rightarrow> native_client \<Rightarrow> native_client \<times> js_error option" where
  "native_postMessage cfg message s =
     (if \<not> webView s then
        (if is_event message then (s, None)
         else reject_own_pending (message_id message)
                (WebViewRPCError ''WebView ref is null'' ''WEBVIEW_NULL'') s)
      else (case serializer cfg message of
              Inr serialized \<Rightarrow> (emit_effect (PostMessage serialized) s, None)
            | Inl error \<Rightarrow>
                let s1 = call_onError cfg error s in
                if is_request message then reject_own_pending (message_id message) error s1
                else (s1, None)))"

text \<open>\<open>handleEvent\<close> (lines 207-222).\<close>

definition native_handleEvent ::
  "config \<Rightarrow> behaviour \<Rightarrow> event_message \<Rightarrow> native_client \<Rightarrow> native_client" where
  "native_handleEvent cfg run message s =
     (case nativeHandlers s (evt_event message) of
        None \<Rightarrow> s
      | Some handlers \<Rightarrow>
          if setObjects s handlers = [] then s
          else fold (invoke_listener cfg run (evt_data message)) (setObjects s handlers) s)"

text \<open>
  \<open>handleRequest\<close> (lines 157-202), an \<open>async\<close> function run as in the web client; \<open>now\<close>
  is what \<open>Date.now()\<close> returns.  The handler called is \<open>Array.from(handlers)[0]\<close>.  The
  \<open>catch\<close> block also receives what \<open>postMessage(response)\<close> throws; what the block itself
  throws rejects the promise that \<open>handleRequest\<close> returned.
\<close>

definition native_handleRequest_catch ::
  "config \<Rightarrow> nat \<Rightarrow> request_message \<Rightarrow> js_error \<Rightarrow> native_client \<Rightarrow>
     native_client \<times> js_error option" where
  "native_handleRequest_catch cfg now message error s =
     (case native_postMessage cfg (handler_error_response message error (Some now)) s of
        (s1, Some thrown) \<Rightarrow> (s1, Some thrown)
      | (s1, None) \<Rightarrow> (call_onError cfg error s1, None))"

definition native_handleRequest ::
  "config \<Rightarrow> behaviour \<Rightarrow> nat \<Rightarrow> request_message \<Rightarrow> native_client \<Rightarrow>
     native_client \<times> js_error option" where
  "native_handleRequest cfg run now message s =
     (case (case nativeHandlers s (req_procedure message) of
              None \<Rightarrow> []
            | Some handlers \<Rightarrow> setObjects s handlers) of
        [] \<Rightarrow> native_postMessage cfg (no_handler_response message (Some now)) s
      | handler # _ \<Rightarrow>
          let s1 = emit_effect (Invoke handler (req_data message)) s in
          (case run handler (req_data message) of
             Returns result \<Rightarrow>
               (case native_postMessage cfg (result_response message result (Some now)) s1 of
                  (s2, None) \<Rightarrow> (s2, None)
                | (s2, Some thrown) \<Rightarrow> native_handleRequest_catch cfg now message thrown s2)
           | Throws error \<Rightarrow> native_handleRequest_catch cfg now message error s1
           | Rejects error \<Rightarrow> native_handleRequest_catch cfg now message error s1))"

text \<open>
  \<open>handleMessage\<close> (lines 117-131); \<open>raw\<close> is \<open>event.nativeEvent.data\<close>.  The promise of
  \<open>handleRequest\<close> is not awaited, so its rejection does not reach the \<open>catch\<close>.
\<close>

definition native_handleMessage ::
  "config \<Rightarrow> behaviour \<Rightarrow> nat \<Rightarrow> string \<Rightarrow> native_client \<Rightarrow> native_client" where
  "native_handleMessage cfg run now raw s =
     (case deserializer cfg raw of
        Inl error \<Rightarrow> call_onError cfg error s
      | Inr message \<Rightarrow>
          (case message of
             Response m \<Rightarrow> handleResponse m s
           | Request m \<Rightarrow> fst (native_handleRequest cfg run now m s)
           | Event m \<Rightarrow> native_handleEvent cfg run m s
           | OtherMessage \<Rightarrow> s))"

text \<open>
  \<open>callWeb\<close> (lines 227-256).  An exception in the promise's executor rejects the
  promise.
\<close>

definition callWeb ::
  "config \<Rightarrow> string \<Rightarrow> jsval \<Rightarrow> string \<Rightarrow> nat \<Rightarrow> native_client \<Rightarrow> native_client \<times> nat" where
  "callWeb cfg procedure data corrId now s =
     (let message = Request \<lparr>req_id = corrId, req_procedure = procedure, req_data = data,
                       req_timestamp = Some now\<rparr>;
          p = nextPromise s;
          s0 = s\<lparr>promises := (promises s)(p \<mapsto> Pending), nextPromise := Suc p\<rparr>;
          t = nextTimer s0;
          s1 = s0\<lparr>timers := (timers s0)(t \<mapsto>
                  \<lparr>timer_delay = timeout cfg, timer_id = corrId, timer_reject = p\<rparr>),
                nextTimer := Suc t\<rparr>;
          s2 = s1\<lparr>pendingRequests :=
                  AList.update corrId \<lparr>resolve = p, reject = p, timeoutId = t\<rparr>
                    (pendingRequests s1)\<rparr>
      in case native_postMessage cfg message s2 of
           (s3, None) \<Rightarrow> (s3, p)
         | (s3, Some thrown) \<Rightarrow> (reject_call p thrown s3, p))"

text \<open>\<open>emitWeb\<close> (lines 261-274) and \<open>emitNative\<close> (lines 279-292) have the same body.\<close>

definition emitWeb ::
  "config \<Rightarrow> string \<Rightarrow> jsval \<Rightarrow> string \<Rightarrow> nat \<Rightarrow> native_client \<Rightarrow> native_client \<times> js_error option" where
  "emitWeb cfg event data corrId now s =
     native_postMessage cfg
       (Event \<lparr>evt_id = corrId, evt_event = event, evt_data = data, evt_timestamp = Some now\<rparr>) s"

definition emitNative ::
  "config \<Rightarrow> string \<Rightarrow> jsval \<Rightarrow> string \<Rightarrow> nat \<Rightarrow> native_client \<Rightarrow> native_client \<times> js_error option" where
  "emitNative cfg event data corrId now s =
     native_postMessage cfg
       (Event \<lparr>evt_id = corrId, evt_event = event, evt_data = data, evt_timestamp = Some now\<rparr>) s"

text \<open>
  \<open>registerNativeHandler\<close> (lines 325-348); \<open>registerWebHandler\<close> (lines 297-320) has the
  same body.  The returned function deletes the handler from the \<open>Set\<close> object it closed
  over and, when that object is empty, deletes the name from \<open>nativeHandlers\<close>.
\<close>

definition registerNativeHandler ::
  "string \<Rightarrow> handler \<Rightarrow> native_client \<Rightarrow> native_client \<times> unregister_closure" where
  "registerNativeHandler nameStr handler s =
     (let s1 = (if nativeHandlers s nameStr = None
                then s\<lparr>setObjects := (setObjects s)(nextSet s := []),
                       nextSet := Suc (nextSet s),
                       nativeHandlers := (nativeHandlers s)(nameStr \<mapsto> nextSet s)\<rparr>
                else s)
      in case nativeHandlers s1 nameStr of
           Some handlers \<Rightarrow>
             (s1\<lparr>setObjects := (setObjects s1)(handlers := set_add handler (setObjects s1 handlers))\<rparr>,
              \<lparr>un_handlers = handlers, un_handler = handler, un_name = nameStr\<rparr>)
         | None \<Rightarrow> (s1, \<lparr>un_handlers = 0, un_handler = handler, un_name = nameStr\<rparr>))"

definition registerWebHandler ::
  "string \<Rightarrow> handler \<Rightarrow> native_client \<Rightarrow> native_client \<times> unregister_closure" where
  "registerWebHandler nameStr handler s = registerNativeHandler nameStr handler s"

definition native_unregister :: "unregister_closure \<Rightarrow> native_client \<Rightarrow> native_client" where
  "native_unregister u s =
     (let s1 = s\<lparr>setObjects := (setObjects s)(un_handlers u :=
                   set_delete (un_handler u) (setObjects s (un_handlers u)))\<rparr>
      in if setObjects s1 (un_handlers u) = []
         then s1\<lparr>nativeHandlers := (nativeHandlers s1)(un_name u := None)\<rparr>
         else s1)"

text \<open>\<open>cleanup\<close> (lines 353-363).\<close>

definition native_cleanup :: "native_client \<Rightarrow> native_client" where
  "native_cleanup s =
     (let s1 = fold (cleanup_entry (Error ''Client cleanup called'')) (pendingRequests s) s;
          s2 = s1\<lparr>pendingRequests := []\<rparr>
      in s2\<lparr>nativeHandlers := Map.empty\<rparr>)"

section \<open>Observations used to state the properties\<close>

text \<open>A handler invocation in the trace.\<close>

definition is_Invoke :: "effect \<Rightarrow> bool" where
  "is_Invoke e = (case e of Invoke _ _ \<Rightarrow> True | _ \<Rightarrow> False)"

text \<open>The listeners registered for a name: the members of the \<open>Set\<close> the registry holds.\<close>

definition web_listeners :: "web_client \<Rightarrow> string \<Rightarrow> handler list" where
  "web_listeners s name = (case eventHandlers s name of None \<Rightarrow> [] | Some a \<Rightarrow> setObjects s a)"

definition native_listeners :: "native_client \<Rightarrow> string \<Rightarrow> handler list" where
  "native_listeners s name = (case nativeHandlers s name of None \<Rightarrow> [] | Some a \<Rightarrow> setObjects s a)"

text \<open>
  What calling one listener is expected to leave in the trace: the call, and the thrown
  error at the sink when there is a sink.
\<close>

definition listener_effects :: "config \<Rightarrow> behaviour \<Rightarrow> jsval \<Rightarrow> handler \<Rightarrow> effect list" where
  "listener_effects cfg run data h =
     Invoke h data #
       (case run h data of
          Throws error \<Rightarrow> (if onError cfg then [OnError error] else [])
        | Returns _ \<Rightarrow> []
        | Rejects _ \<Rightarrow> [])"

text \<open>What tearing down one pending entry is expected to leave in the trace.\<close>

definition cleanup_effects :: "js_error \<Rightarrow> (string \<times> pending) \<Rightarrow> effect list" where
  "cleanup_effects reason entry =
     [ClearTimeout (timeoutId (snd entry)), RejectCall (reject (snd entry)) reason]"

text \<open>
  Concrete options for the examples: a serializer that writes the message's id and a
  deserializer that reads a string as the id of a successful response; and options whose
  serializer and deserializer throw.
\<close>

definition example_response :: "string \<Rightarrow> response_message" where
  "example_response rid =
     \<lparr>res_id = rid, res_data = JStr ''ok'', res_error = None, res_timestamp = None\<rparr>"

definition example_config :: config where
  "example_config =
     \<lparr>serializer = (\<lambda>m. Inr (message_id m)),
      deserializer = (\<lambda>raw. Inr (Response (example_response raw))),
      timeout = 100, onError = True\<rparr>"

definition failing_config :: config where
  "failing_config =
     \<lparr>serializer = (\<lambda>m. Inl (Error ''Serialization failed'')),
      deserializer = (\<lambda>raw. Inl (Error ''Unexpected token'')),
      timeout = 100, onError = True\<rparr>"

text \<open>A native client with one request in flight: \<open>callWeb\<close> with id \<open>a\<close> on a new client.\<close>

definition example_pending_native :: native_client where
  "example_pending_native =
     fst (callWeb example_config ''navigate'' JNull ''a'' 0 (createNativeClient True))"

text \<open>
  A native client with a handler registered for \<open>getData\<close> and two requests in flight,
  and a web client inside a WebView with a listener and one request in flight.
\<close>

definition example_busy_native :: native_client where
  "example_busy_native =
     fst (callWeb example_config ''navigate'' JNull ''b'' 0
       (fst (callWeb example_config ''navigate'' JNull ''a'' 0
         (fst (registerNativeHandler ''getData'' 7 (createNativeClient True))))))"

definition example_busy_web :: web_client where
  "example_busy_web =
     fst (web_call example_config ''share'' JNull ''c''
       (fst (web_handleNativeEvent ''appStateChange'' 5 (createWebClient True True))))"

text \<open>
  Options whose deserializer reads a string as the id of a response that carries the
  error of a handler that threw \<open>Error("boom")\<close>.
\<close>

definition boom_reply_config :: config where
  "boom_reply_config =
     \<lparr>serializer = (\<lambda>m. Inr (message_id m)),
      deserializer = (\<lambda>raw. Inr (Response
         \<lparr>res_id = raw, res_data = JUndefined,
          res_error = Some \<lparr>info_message = ''boom'', info_code = ''HANDLER_ERROR''\<rparr>,
          res_timestamp = None\<rparr>)),
      timeout = 100, onError = True\<rparr>"

text \<open>
  The values that JSON text denotes within \<open>jsval\<close>: no \<open>undefined\<close> anywhere, numbers of
  magnitude below \<open>2^53\<close>, and objects whose keys are distinct and listed in enumeration
  order (array indices first, ascending).  \<open>nodes\<close> bounds the fuel that reading a value
  back takes.
\<close>

fun keys_ordered :: "string list \<Rightarrow> bool" where
  "keys_ordered [] = True"
| "keys_ordered (k # ks) =
     ((if is_array_index k
       then list_all (\<lambda>k'. \<not> is_array_index k' \<or> digits_val k < digits_val k') ks
       else list_all (\<lambda>k'. \<not> is_array_index k') ks) \<and>
      keys_ordered ks)"

fun is_json :: "jsval \<Rightarrow> bool"
  and is_json_list :: "jsval list \<Rightarrow> bool"
  and is_json_props :: "(string \<times> jsval) list \<Rightarrow> bool" where
  "is_json JUndefined = False"
| "is_json JNull = True"
| "is_json (JBool b) = True"
| "is_json (JNum n) = (\<bar>n\<bar> < 2 ^ 53)"
| "is_json (JStr s) = True"
| "is_json (JArr vs) = is_json_list vs"
| "is_json (JObj ps) =
     (distinct (map fst ps) \<and> keys_ordered (map fst ps) \<and> is_json_props ps)"
| "is_json_list [] = True"
| "is_json_list (v # vs) = (is_json v \<and> is_json_list vs)"
| "is_json_props [] = True"
| "is_json_props (p # ps) = (is_json (snd p) \<and> is_json_props ps)"

fun nodes :: "jsval \<Rightarrow> nat"
  and nodes_list :: "jsval list \<Rightarrow> nat"
  and nodes_props :: "(string \<times> jsval) list \<Rightarrow> nat" where
  "nodes (JArr vs) = Suc (nodes_list vs)"
| "nodes (JObj ps) = Suc (nodes_props ps)"
| "nodes v = 1"
| "nodes_list [] = 0"
| "nodes_list (v # vs) = Suc (nodes v + nodes_list vs)"
| "nodes_props [] = 0"
| "nodes_props (p # ps) = Suc (nodes (snd p) + nodes_props ps)"

definition follow_ok :: "string \<Rightarrow> bool" where
  "follow_ok rest =
     (rest = [] \<or> hd rest = CHR '','' \<or> hd rest = CHR '']'' \<or> hd rest = CHR ''}'')"

definition value_start :: "string \<Rightarrow> bool" where
  "value_start s = (s \<noteq> [] \<and> \<not> is_ws (hd s) \<and> hd s \<noteq> CHR '']'' \<and> hd s \<noteq> CHR ''}'')"

text \<open>
  A payload may also be \<open>undefined\<close> itself; a timestamp is a number of magnitude below
  \<open>2^53\<close>.
\<close>

definition payload_ok :: "jsval \<Rightarrow> bool" where
  "payload_ok d = (d = JUndefined \<or> is_json d)"

definition timestamp_ok :: "nat option \<Rightarrow> bool" where
  "timestamp_ok ts = (case ts of None \<Rightarrow> True | Some t \<Rightarrow> t < 2 ^ 53)"

text \<open>
  A request whose payload is the array \<open>[undefined]\<close>, and a request as the native client
  sends it.
\<close>

definition undefined_in_array_request :: request_message where
  "undefined_in_array_request =
     \<lparr>req_id = ''a'', req_procedure = ''p'', req_data = JArr [JUndefined], req_timestamp = None\<rparr>"

definition example_request :: request_message where
  "example_request =
     \<lparr>req_id = ''a'', req_procedure = ''navigate'',
      req_data = JObj [(''path'', JStr ''/home''), (''tags'', JArr [JNum 1, JBool True, JNull])],
      req_timestamp = Some 1234567890\<rparr>"

text \<open>
  The bookkeeping that the clients keep between timers, promises and pending entries:
  an armed timer is older than the next handle, its callback rejects a promise that is
  still pending, no two armed timers reject the same promise, and every pending entry
  sits under the id of its own armed timer.  \<open>timers_sound\<close> is the part about timers
  alone, \<open>sole_timer\<close> says that only the entry's own timer rejects the entry's promise.
\<close>

definition timers_ok :: "('a client_scheme) \<Rightarrow> bool" where
  "timers_ok s =
     ((\<forall>t cb. timers s t = Some cb \<longrightarrow>
         t < nextTimer s \<and> timer_reject cb < nextPromise s \<and>
         promises s (timer_reject cb) = Some Pending) \<and>
      (\<forall>t t' cb cb'. timers s t = Some cb \<and> timers s t' = Some cb' \<and>
         timer_reject cb = timer_reject cb' \<longrightarrow> t = t') \<and>
      distinct (map fst (pendingRequests s)) \<and>
      (\<forall>k pd. map_of (pendingRequests s) k = Some pd \<longrightarrow>
         resolve pd = reject pd \<and>
         (\<exists>cb. timers s (timeoutId pd) = Some cb \<and> timer_reject cb = reject pd \<and>
               timer_id cb = k)))"

definition timers_sound :: "('a client_scheme) \<Rightarrow> bool" where
  "timers_sound s =
     ((\<forall>t cb. timers s t = Some cb \<longrightarrow>
         t < nextTimer s \<and> timer_reject cb < nextPromise s \<and>
         promises s (timer_reject cb) = Some Pending) \<and>
      (\<forall>t t' cb cb'. timers s t = Some cb \<and> timers s t' = Some cb' \<and>
         timer_reject cb = timer_reject cb' \<longrightarrow> t = t'))"

definition sole_timer :: "string \<times> pending \<Rightarrow> ('a client_scheme) \<Rightarrow> bool" where
  "sole_timer e s =
     (\<forall>t c. timers s t = Some c \<and> timer_reject c = reject (snd e) \<longrightarrow> t = timeoutId (snd e))"

text \<open>
  The states a client can be in: created, and then any of its operations, the arrival
  of a message, or the expiry of a timer, in any order.  For the native client the host
  may also set or clear \<open>webViewRef.current\<close>.
\<close>

inductive web_reachable :: "config \<Rightarrow> behaviour \<Rightarrow> web_client \<Rightarrow> bool"
  for cfg :: config and run :: behaviour where
  web_created: "web_reachable cfg run (createWebClient hasWindow hasBridge)"
| web_called: "web_reachable cfg run s \<Longrightarrow>
     web_reachable cfg run (fst (web_call cfg procedure data corrId s))"
| web_received: "web_reachable cfg run s \<Longrightarrow> web_reachable cfg run (web_receive cfg run raw s)"
| web_timer: "web_reachable cfg run s \<Longrightarrow> web_reachable cfg run (timerFires cfg t s)"
| web_listened: "web_reachable cfg run s \<Longrightarrow>
     web_reachable cfg run (fst (web_handleNativeEvent eventName handler s))"
| web_unlistened: "web_reachable cfg run s \<Longrightarrow> web_reachable cfg run (web_unregister_event u s)"
| web_emitted: "web_reachable cfg run s \<Longrightarrow> web_reachable cfg run (web_emit cfg event data corrId s)"
| web_handled: "web_reachable cfg run s \<Longrightarrow>
     web_reachable cfg run (fst (handleWebProcedure procedureName handler s))"
| web_unhandled: "web_reachable cfg run s \<Longrightarrow>
     web_reachable cfg run (web_unregister_procedure procedureName s)"
| web_cleaned: "web_reachable cfg run s \<Longrightarrow> web_reachable cfg run (web_cleanup s)"

inductive native_reachable :: "config \<Rightarrow> behaviour \<Rightarrow> native_client \<Rightarrow> bool"
  for cfg :: config and run :: behaviour where
  native_created: "native_reachable cfg run (createNativeClient hasWebView)"
| native_ref: "native_reachable cfg run s \<Longrightarrow> native_reachable cfg run (s\<lparr>webView := b\<rparr>)"
| native_called: "native_reachable cfg run s \<Longrightarrow>
     native_reachable cfg run (fst (callWeb cfg procedure data corrId now s))"
| native_received: "native_reachable cfg run s \<Longrightarrow>
     native_reachable cfg run (native_handleMessage cfg run now raw s)"
| native_timer: "native_reachable cfg run s \<Longrightarrow> native_reachable cfg run (timerFires cfg t s)"
| native_emitted_web: "native_reachable cfg run s \<Longrightarrow>
     native_reachable cfg run (fst (emitWeb cfg event data corrId now s))"
| native_emitted: "native_reachable cfg run s \<Longrightarrow>
     native_reachable cfg run (fst (emitNative cfg event data corrId now s))"
| native_handled_web: "native_reachable cfg run s \<Longrightarrow>
     native_reachable cfg run (fst (registerWebHandler nameStr handler s))"
| native_handled: "native_reachable cfg run s \<Longrightarrow>
     native_reachable cfg run (fst (registerNativeHandler nameStr handler s))"
| native_unhandled: "native_reachable cfg run s \<Longrightarrow> native_reachable cfg run (native_unregister u s)"
| native_cleaned: "native_reachable cfg run s \<Longrightarrow> native_reachable cfg run (native_cleanup s)"

section \<open>Properties\<close>

lemmas client_ops = emit_effect_def call_onError_def resolve_call_def reject_call_def
  clearTimeout_def Let_def

lemma map_of_delete_same: "map_of (AList.delete k al) k = None"
  by (simp add: AList.delete_conv')

lemma handleResponse_unknown:
  "map_of (pendingRequests s) (res_id message) = None \<Longrightarrow> handleResponse message s = s"
  by (simp add: handleResponse_def)

lemma handleResponse_removes:
  "map_of (pendingRequests (handleResponse message s)) (res_id message) = None"
  by (auto simp: handleResponse_def client_ops map_of_delete_same split: option.splits)

lemma timerFires_removes:
  "timers s t = Some cb \<Longrightarrow>
   map_of (pendingRequests (timerFires cfg t s)) (timer_id cb) = None"
  by (simp add: timerFires_def client_ops map_of_delete_same)

lemma example_pending_native_eval:
  "example_pending_native =
     \<lparr>pendingRequests = [(''a'', \<lparr>resolve = 0, reject = 0, timeoutId = 0\<rparr>)],
      promises = [0 \<mapsto> Pending],
      timers = [0 \<mapsto> \<lparr>timer_delay = 100, timer_id = ''a'', timer_reject = 0\<rparr>],
      setObjects = (\<lambda>_. []), nextPromise = 1, nextTimer = 1, nextSet = 0,
      trace = [PostMessage ''a''],
      nativeHandlers = Map.empty, webView = True\<rparr>"
  by (simp add: example_pending_native_def callWeb_def createNativeClient_def
      native_postMessage_def example_config_def message_id_def emit_effect_def Let_def)

subsection \<open>Responses for unknown or settled requests\<close>

text \<open>
  C1.  A response whose id has no pending entry leaves the client exactly as it was: no
  call of \<open>resolve\<close> or \<open>reject\<close>, nothing at the error sink, the store unchanged.  That
  covers an unknown id, a second response for a request already settled by a first one,
  and a response that arrives after the request's timer has fired; it holds for
  \<open>handleResponse\<close> and for \<open>handleMessage\<close> of both clients.
\<close>

theorem response_without_pending_entry_is_noop:
  fixes s :: "'a client_scheme" and sw :: web_client and sn :: native_client
  shows "(map_of (pendingRequests s) (res_id m) = None \<longrightarrow> handleResponse m s = s) \<and>
     (res_id m2 = res_id m \<longrightarrow> handleResponse m2 (handleResponse m s) = handleResponse m s) \<and>
     (timers s t = Some cb \<and> res_id m = timer_id cb \<longrightarrow>
        handleResponse m (timerFires cfg t s) = timerFires cfg t s) \<and>
     (deserializer cfg raw = Inr (Response m) \<and> map_of (pendingRequests sw) (res_id m) = None \<longrightarrow>
        web_handleMessage cfg run raw sw = sw) \<and>
     (deserializer cfg raw = Inr (Response m) \<and> map_of (pendingRequests sn) (res_id m) = None \<longrightarrow>
        native_handleMessage cfg run now raw sn = sn)"
proof (intro conjI impI)
  show "handleResponse m s = s" if "map_of (pendingRequests s) (res_id m) = None"
    using that by (rule handleResponse_unknown)
  show "handleResponse m2 (handleResponse m s) = handleResponse m s" if "res_id m2 = res_id m"
    using handleResponse_removes [of m s] that by (simp add: handleResponse_unknown)
  show "handleResponse m (timerFires cfg t s) = timerFires cfg t s"
    if "timers s t = Some cb \<and> res_id m = timer_id cb"
    using that timerFires_removes [of s t cb cfg] by (simp add: handleResponse_unknown)
  show "web_handleMessage cfg run raw sw = sw"
    if "deserializer cfg raw = Inr (Response m) \<and> map_of (pendingRequests sw) (res_id m) = None"
    using that by (simp add: web_handleMessage_def handleResponse_unknown)
  show "native_handleMessage cfg run now raw sn = sn"
    if "deserializer cfg raw = Inr (Response m) \<and> map_of (pendingRequests sn) (res_id m) = None"
    using that by (simp add: native_handleMessage_def handleResponse_unknown)
qed

theorem response_without_pending_entry_is_noop_witness:
  "handleResponse (example_response ''zz'') example_pending_native = example_pending_native \<and>
   handleResponse (example_response ''a'') example_pending_native \<noteq> example_pending_native \<and>
   handleResponse (example_response ''a'')
       (handleResponse (example_response ''a'') example_pending_native)
     = handleResponse (example_response ''a'') example_pending_native \<and>
   timerFires example_config 0 example_pending_native \<noteq> example_pending_native \<and>
   handleResponse (example_response ''a'') (timerFires example_config 0 example_pending_native)
     = timerFires example_config 0 example_pending_native \<and>
   web_handleMessage example_config (\<lambda>_ _. Returns JNull) ''zz'' (createWebClient True True)
     = createWebClient True True \<and>
   native_handleMessage example_config (\<lambda>_ _. Returns JNull) 0 ''zz'' example_pending_native
     = example_pending_native"
proof -
  have a: "map_of (pendingRequests example_pending_native) (res_id (example_response ''zz'')) = None"
    by (simp add: example_pending_native_eval example_response_def)
  have b: "timers example_pending_native 0 =
      Some \<lparr>timer_delay = 100, timer_id = ''a'', timer_reject = 0\<rparr>"
    by (simp add: example_pending_native_eval)
  have c: "deserializer example_config ''zz'' = Inr (Response (example_response ''zz''))"
    by (simp add: example_config_def)
  have d: "map_of (pendingRequests (createWebClient True True)) (res_id (example_response ''zz'')) = None"
    by (simp add: createWebClient_def)
  have "trace (handleResponse (example_response ''a'') example_pending_native)
      \<noteq> trace example_pending_native"
    by (simp add: example_pending_native_eval example_response_def handleResponse_def client_ops)
  then have e: "handleResponse (example_response ''a'') example_pending_native \<noteq> example_pending_native"
    by auto
  have "trace (timerFires example_config 0 example_pending_native) \<noteq> trace example_pending_native"
    by (simp add: example_pending_native_eval timerFires_def client_ops)
  then have f: "timerFires example_config 0 example_pending_native \<noteq> example_pending_native"
    by auto
  show ?thesis
    using response_without_pending_entry_is_noop
        [where s = example_pending_native and m = "example_response ''zz''"
        and sw = "createWebClient True True" and sn = example_pending_native
        and cfg = example_config and raw = "''zz''" and run = "\<lambda>_ _. Returns JNull" and now = 0]
      response_without_pending_entry_is_noop
        [where s = example_pending_native and m = "example_response ''a''"
        and ?m2.0 = "example_response ''a''" and t = 0
        and cb = "\<lparr>timer_delay = 100, timer_id = ''a'', timer_reject = 0\<rparr>"
        and cfg = example_config]
      a b c d e f
    by (simp add: example_response_def)
qed

subsection \<open>A response that carries both an error and data\<close>

text \<open>
  C10.  When a response for a pending request carries an \<open>error\<close>, the request's timer is
  cleared and its promise is rejected with a \<open>WebViewRPCError\<close> made of the error's message
  and code; \<open>resolve\<close> is not called, and whatever the response carries as \<open>data\<close> makes
  no difference to the outcome.
\<close>

theorem response_error_takes_precedence_over_data:
  fixes s :: "'a client_scheme"
  assumes "map_of (pendingRequests s) (res_id m) = Some pd" and "res_error m = Some e"
  shows "trace (handleResponse m s) =
           trace s @ [ClearTimeout (timeoutId pd),
                      RejectCall (reject pd) (WebViewRPCError (info_message e) (info_code e))] \<and>
     (promises s (reject pd) = Some Pending \<longrightarrow>
           promises (handleResponse m s) (reject pd) =
             Some (Rejected (WebViewRPCError (info_message e) (info_code e)))) \<and>
     handleResponse (m\<lparr>res_data := d\<rparr>) s = handleResponse m s \<and>
     err_message (WebViewRPCError (info_message e) (info_code e)) = info_message e \<and>
     err_code (WebViewRPCError (info_message e) (info_code e)) = Some (info_code e)"
  using assms
  by (simp add: handleResponse_def client_ops WebViewRPCError_def Error_def)

theorem response_error_takes_precedence_over_data_witness:
  "map_of (pendingRequests example_pending_native) ''a'' =
     Some \<lparr>resolve = 0, reject = 0, timeoutId = 0\<rparr> \<and>
   promises example_pending_native 0 = Some Pending \<and>
   trace (handleResponse
            \<lparr>res_id = ''a'', res_data = JStr ''ok'',
             res_error = Some \<lparr>info_message = ''boom'', info_code = ''HANDLER_ERROR''\<rparr>,
             res_timestamp = None\<rparr> example_pending_native) =
     [PostMessage ''a'', ClearTimeout 0, RejectCall 0 (WebViewRPCError ''boom'' ''HANDLER_ERROR'')] \<and>
   promises (handleResponse
            \<lparr>res_id = ''a'', res_data = JStr ''ok'',
             res_error = Some \<lparr>info_message = ''boom'', info_code = ''HANDLER_ERROR''\<rparr>,
             res_timestamp = None\<rparr> example_pending_native) 0 =
     Some (Rejected (WebViewRPCError ''boom'' ''HANDLER_ERROR''))"
proof -
  let ?m = "\<lparr>res_id = ''a'', res_data = JStr ''ok'',
             res_error = Some \<lparr>info_message = ''boom'', info_code = ''HANDLER_ERROR''\<rparr>,
             res_timestamp = None\<rparr>"
  let ?pd = "\<lparr>resolve = 0, reject = 0, timeoutId = 0\<rparr>"
  have a: "map_of (pendingRequests example_pending_native) (res_id ?m) = Some ?pd"
    and b: "res_error ?m = Some \<lparr>info_message = ''boom'', info_code = ''HANDLER_ERROR''\<rparr>"
    and c: "promises example_pending_native 0 = Some Pending"
    and d: "trace example_pending_native = [PostMessage ''a'']"
    by (simp_all add: example_pending_native_eval)
  from response_error_takes_precedence_over_data [OF a b] a c d
  show ?thesis by simp
qed

subsection \<open>Dispatch of notifications\<close>

lemma invoke_listener_trace:
  "invoke_listener cfg run d h s = s\<lparr>trace := trace s @ listener_effects cfg run d h\<rparr>"
  by (simp add: invoke_listener_def listener_effects_def client_ops split: outcome.splits)

lemma fold_invoke_listener:
  "fold (invoke_listener cfg run d) hs s =
     s\<lparr>trace := trace s @ concat (map (listener_effects cfg run d) hs)\<rparr>"
  by (induction hs arbitrary: s) (simp_all add: invoke_listener_trace)

lemma web_handleEvent_trace:
  "web_handleEvent cfg run m s =
     s\<lparr>trace := trace s @
         concat (map (listener_effects cfg run (evt_data m)) (web_listeners s (evt_event m)))\<rparr>"
  by (simp add: web_handleEvent_def web_listeners_def fold_invoke_listener split: option.splits)

lemma native_handleEvent_trace:
  "native_handleEvent cfg run m s =
     s\<lparr>trace := trace s @
         concat (map (listener_effects cfg run (evt_data m)) (native_listeners s (evt_event m)))\<rparr>"
  by (simp add: native_handleEvent_def native_listeners_def fold_invoke_listener split: option.splits)

lemma web_listeners_register:
  "web_listeners (fst (web_handleNativeEvent name h s)) name = set_add h (web_listeners s name)"
  by (simp add: web_handleNativeEvent_def web_listeners_def Let_def split: option.splits)

lemma native_listeners_register:
  "native_listeners (fst (registerNativeHandler name h s)) name = set_add h (native_listeners s name)"
  by (simp add: registerNativeHandler_def native_listeners_def Let_def split: option.splits)

lemma distinct_set_add: "distinct (set_add h hs) = distinct hs"
  by (simp add: set_add_def)

lemma filter_Invoke_listener_effects:
  "filter is_Invoke (concat (map (listener_effects cfg run d) hs)) = map (\<lambda>h. Invoke h d) hs"
  by (induction hs) (simp_all add: listener_effects_def is_Invoke_def split: outcome.splits)

text \<open>
  C6.  \<open>handleEvent\<close> of either client changes nothing but the trace, to which it appends,
  for each listener registered for the event's name in the order of the \<open>Set\<close>, the call
  of that listener followed, when the call throws and a sink is configured, by the thrown
  error at the sink.  So the calls made are exactly one per registered listener, in that
  order, whatever any of them throws.  Registering a listener puts it last in the \<open>Set\<close>
  unless it is already a member, and a \<open>Set\<close> never holds a listener twice.
\<close>

theorem notification_invokes_every_listener_once_in_order:
  "web_handleEvent cfg run m sw =
     sw\<lparr>trace := trace sw @
         concat (map (listener_effects cfg run (evt_data m)) (web_listeners sw (evt_event m)))\<rparr> \<and>
   native_handleEvent cfg run m sn =
     sn\<lparr>trace := trace sn @
         concat (map (listener_effects cfg run (evt_data m)) (native_listeners sn (evt_event m)))\<rparr> \<and>
   filter is_Invoke (concat (map (listener_effects cfg run (evt_data m)) hs)) =
     map (\<lambda>h. Invoke h (evt_data m)) hs \<and>
   web_listeners (fst (web_handleNativeEvent name h sw)) name =
     (if h \<in> set (web_listeners sw name) then web_listeners sw name
      else web_listeners sw name @ [h]) \<and>
   native_listeners (fst (registerNativeHandler name h sn)) name =
     (if h \<in> set (native_listeners sn name) then native_listeners sn name
      else native_listeners sn name @ [h]) \<and>
   distinct (web_listeners (fst (web_handleNativeEvent name h sw)) name) =
     distinct (web_listeners sw name) \<and>
   distinct (native_listeners (fst (registerNativeHandler name h sn)) name) =
     distinct (native_listeners sn name)"
  by (simp add: web_handleEvent_trace native_handleEvent_trace filter_Invoke_listener_effects
      web_listeners_register native_listeners_register distinct_set_add)
    (simp add: set_add_def)

text \<open>
  Three listeners registered in the order 1, 2, 3 on a new native client; listener 2
  throws \<open>Error("boom")\<close>.
\<close>

theorem notification_invokes_every_listener_once_in_order_witness:
  "trace (native_handleEvent example_config
            (\<lambda>h d. if h = 2 then Throws (Error ''boom'') else Returns JUndefined)
            \<lparr>evt_id = ''e1'', evt_event = ''appStateChange'', evt_data = JStr ''active'',
             evt_timestamp = None\<rparr>
            (fst (registerNativeHandler ''appStateChange'' 3
              (fst (registerNativeHandler ''appStateChange'' 2
                (fst (registerNativeHandler ''appStateChange'' 1 (createNativeClient True)))))))) =
     [Invoke 1 (JStr ''active''), Invoke 2 (JStr ''active''), OnError (Error ''boom''),
      Invoke 3 (JStr ''active'')]"
proof -
  let ?s1 = "fst (registerNativeHandler ''appStateChange'' 1 (createNativeClient True))"
  let ?s2 = "fst (registerNativeHandler ''appStateChange'' 2 ?s1)"
  let ?s3 = "fst (registerNativeHandler ''appStateChange'' 3 ?s2)"
  have 0: "native_listeners (createNativeClient True) ''appStateChange'' = []"
    by (simp add: native_listeners_def createNativeClient_def)
  have 1: "native_listeners ?s1 ''appStateChange'' = [1]"
    using notification_invokes_every_listener_once_in_order
      [where sn = "createNativeClient True" and name = "''appStateChange''" and h = 1] 0
    by simp
  have 2: "native_listeners ?s2 ''appStateChange'' = [1, 2]"
    using notification_invokes_every_listener_once_in_order
      [where sn = ?s1 and name = "''appStateChange''" and h = 2] 1
    by simp
  have 3: "native_listeners ?s3 ''appStateChange'' = [1, 2, 3]"
    using notification_invokes_every_listener_once_in_order
      [where sn = ?s2 and name = "''appStateChange''" and h = 3] 2
    by simp
  have t: "trace ?s3 = []"
    by (simp add: registerNativeHandler_def createNativeClient_def Let_def)
  show ?thesis
    using notification_invokes_every_listener_once_in_order
      [where sn = ?s3 and cfg = example_config
        and run = "\<lambda>h d. if h = 2 then Throws (Error ''boom'') else Returns JUndefined"
        and m = "\<lparr>evt_id = ''e1'', evt_event = ''appStateChange'', evt_data = JStr ''active'',
             evt_timestamp = None\<rparr>"] 3 t
    by (simp add: listener_effects_def example_config_def)
qed

subsection \<open>Teardown\<close>


lemma cleanup_entry_fields:
  "trace (cleanup_entry reason entry s) = trace s @ cleanup_effects reason entry"
  "timers (cleanup_entry reason entry s) = (timers s)(timeoutId (snd entry) := None)"
  "promises (cleanup_entry reason entry s) =
     (if promises s (reject (snd entry)) = Some Pending
      then (promises s)(reject (snd entry) \<mapsto> Rejected reason)
      else promises s)"
  "client.more (cleanup_entry reason entry s) = client.more s"
  by (simp_all add: cleanup_entry_def cleanup_effects_def client_ops)

lemma fold_cleanup_trace:
  "trace (fold (cleanup_entry reason) es s) = trace s @ concat (map (cleanup_effects reason) es)"
  by (induction es arbitrary: s) (simp_all add: cleanup_entry_fields)

lemma fold_cleanup_more: "client.more (fold (cleanup_entry reason) es s) = client.more s"
  by (induction es arbitrary: s) (simp_all add: cleanup_entry_fields)

lemma fold_cleanup_timers_keep:
  "timers s t = None \<Longrightarrow> timers (fold (cleanup_entry reason) es s) t = None"
  by (induction es arbitrary: s) (simp_all add: cleanup_entry_fields)

lemma fold_cleanup_timers:
  "entry \<in> set es \<Longrightarrow> timers (fold (cleanup_entry reason) es s) (timeoutId (snd entry)) = None"
  by (induction es arbitrary: s) (auto simp: cleanup_entry_fields fold_cleanup_timers_keep)

lemma cleanup_entry_promises_keep:
  "promises s p = Some (Rejected r) \<Longrightarrow> promises (cleanup_entry reason a s) p = Some (Rejected r)"
  by (auto simp: cleanup_entry_fields)

lemma fold_cleanup_promises_keep:
  "promises s p = Some (Rejected r) \<Longrightarrow>
   promises (fold (cleanup_entry reason) es s) p = Some (Rejected r)"
  by (induction es arbitrary: s) (simp_all add: cleanup_entry_promises_keep)

lemma fold_cleanup_promises:
  "entry \<in> set es \<Longrightarrow> promises s (reject (snd entry)) = Some Pending \<Longrightarrow>
   promises (fold (cleanup_entry reason) es s) (reject (snd entry)) = Some (Rejected reason)"
proof (induction es arbitrary: s)
  case Nil
  then show ?case by simp
next
  case (Cons x xs)
  show ?case
  proof (cases "reject (snd x) = reject (snd entry)")
    case True
    with Cons.prems show ?thesis
      by (simp add: fold_cleanup_promises_keep cleanup_entry_fields)
  next
    case False
    with Cons.prems have "entry \<in> set xs" by auto
    moreover from False Cons.prems
    have "promises (cleanup_entry reason x s) (reject (snd entry)) = Some Pending"
      by (simp add: cleanup_entry_fields)
    ultimately show ?thesis using Cons.IH by simp
  qed
qed

lemma cleanup_effects_no_Invoke:
  "filter is_Invoke (concat (map (cleanup_effects reason) es)) = []"
  by (induction es) (simp_all add: cleanup_effects_def is_Invoke_def)

lemma web_cleanup_fields:
  "pendingRequests (web_cleanup s) = []"
  "eventHandlers (web_cleanup s) = Map.empty"
  "procedureHandlers (web_cleanup s) = Map.empty"
  "trace (web_cleanup s) = trace s @
     concat (map (cleanup_effects (WebViewRPCError ''Client cleanup'' ''CLEANUP'')) (pendingRequests s))"
  "timers (web_cleanup s) = timers (fold (cleanup_entry (WebViewRPCError ''Client cleanup'' ''CLEANUP'')) (pendingRequests s) s)"
  "promises (web_cleanup s) = promises (fold (cleanup_entry (WebViewRPCError ''Client cleanup'' ''CLEANUP'')) (pendingRequests s) s)"
  by (simp_all add: web_cleanup_def Let_def fold_cleanup_trace)

lemma native_cleanup_fields:
  "pendingRequests (native_cleanup s) = []"
  "nativeHandlers (native_cleanup s) = Map.empty"
  "trace (native_cleanup s) = trace s @
     concat (map (cleanup_effects (Error ''Client cleanup called'')) (pendingRequests s))"
  "timers (native_cleanup s) = timers (fold (cleanup_entry (Error ''Client cleanup called'')) (pendingRequests s) s)"
  "promises (native_cleanup s) = promises (fold (cleanup_entry (Error ''Client cleanup called'')) (pendingRequests s) s)"
  by (simp_all add: native_cleanup_def Let_def fold_cleanup_trace)

lemma handleResponse_no_Invoke:
  "filter is_Invoke (trace (handleResponse m s)) = filter is_Invoke (trace s)"
  by (simp add: handleResponse_def client_ops is_Invoke_def split: option.splits)

lemma handleResponse_more: "client.more (handleResponse m s) = client.more s"
  by (simp add: handleResponse_def client_ops split: option.splits)

lemma handleResponse_web_handlers:
  "eventHandlers (handleResponse m s) = eventHandlers s"
  "procedureHandlers (handleResponse m s) = procedureHandlers s"
  by (simp_all add: handleResponse_def client_ops split: option.splits)

lemma handleResponse_native_handlers:
  "nativeHandlers (handleResponse m s) = nativeHandlers s"
  by (simp_all add: handleResponse_def client_ops split: option.splits)

lemma web_handleMessage_no_handlers:
  assumes "eventHandlers s = Map.empty" and "procedureHandlers s = Map.empty"
  shows "eventHandlers (web_handleMessage cfg run raw s) = Map.empty \<and>
         procedureHandlers (web_handleMessage cfg run raw s) = Map.empty \<and>
         filter is_Invoke (trace (web_handleMessage cfg run raw s)) = filter is_Invoke (trace s)"
  using assms
  by (simp add: web_handleMessage_def web_handleEvent_def web_handleRequest_def postToNative_def
      handleResponse_web_handlers handleResponse_no_Invoke emit_effect_def call_onError_def
      is_Invoke_def split: sum.splits message.splits)

lemma native_postMessage_no_Invoke:
  "filter is_Invoke (trace (fst (native_postMessage cfg m s))) = filter is_Invoke (trace s) \<and>
   nativeHandlers (fst (native_postMessage cfg m s)) = nativeHandlers s"
  by (simp add: native_postMessage_def reject_own_pending_def client_ops is_Invoke_def
      split: sum.splits option.splits)

lemma native_handleMessage_no_handlers:
  assumes "nativeHandlers s = Map.empty"
  shows "nativeHandlers (native_handleMessage cfg run now raw s) = Map.empty \<and>
         filter is_Invoke (trace (native_handleMessage cfg run now raw s)) = filter is_Invoke (trace s)"
  using assms
  by (simp add: native_handleMessage_def native_handleEvent_def native_handleRequest_def
      native_postMessage_no_Invoke
      handleResponse_native_handlers handleResponse_no_Invoke emit_effect_def call_onError_def
      is_Invoke_def split: sum.splits message.splits)

lemma fold_web_handleMessage_no_handlers:
  assumes "eventHandlers s = Map.empty" and "procedureHandlers s = Map.empty"
  shows "filter is_Invoke (trace (fold (web_handleMessage cfg run) raws s)) = filter is_Invoke (trace s)"
  using assms
  by (induction raws arbitrary: s) (simp_all add: web_handleMessage_no_handlers)

lemma fold_native_handleMessage_no_handlers:
  assumes "nativeHandlers s = Map.empty"
  shows "filter is_Invoke (trace (fold (\<lambda>(now, raw). native_handleMessage cfg run now raw) raws s))
           = filter is_Invoke (trace s)"
  using assms
  by (induction raws arbitrary: s) (simp_all add: native_handleMessage_no_handlers split: prod.splits)


lemma web_receive_no_handlers:
  assumes "eventHandlers s = Map.empty" and "procedureHandlers s = Map.empty"
  shows "eventHandlers (web_receive cfg run raw s) = Map.empty \<and>
         procedureHandlers (web_receive cfg run raw s) = Map.empty \<and>
         filter is_Invoke (trace (web_receive cfg run raw s)) = filter is_Invoke (trace s)"
  using web_handleMessage_no_handlers [OF assms] assms by (simp add: web_receive_def)

lemma fold_web_receive_no_handlers:
  assumes "eventHandlers s = Map.empty" and "procedureHandlers s = Map.empty"
  shows "filter is_Invoke (trace (fold (web_receive cfg run) raws s)) = filter is_Invoke (trace s)"
  using assms
  by (induction raws arbitrary: s) (simp_all add: web_receive_no_handlers)

lemma fold_web_receive_not_listening:
  "\<not> listening s \<Longrightarrow> fold (web_receive cfg run) raws s = s"
  by (induction raws) (simp_all add: web_receive_def)

lemma fold_cleanup_window:
  "window (fold (cleanup_entry reason) es s) = window s"
  by (induction es arbitrary: s) (simp_all add: cleanup_entry_def client_ops)

lemma web_cleanup_not_listening: "window s \<Longrightarrow> \<not> listening (web_cleanup s)"
  by (simp add: web_cleanup_def Let_def fold_cleanup_window)

text \<open>
  C8.  \<open>cleanup\<close> of either client empties \<open>pendingRequests\<close> and, for each entry that was
  pending, in order, clears its timer and calls its \<open>reject\<close> with a fixed error
  (\<open>WebViewRPCError('Client cleanup', 'CLEANUP')\<close> on the web side,
  \<open>Error('Client cleanup called')\<close> on the native side): afterwards no timer of an entry
  is armed, and a promise that was pending is rejected with that error.  The registries
  are emptied, so whatever messages arrive afterwards, no handler is invoked; a web
  client that has a window also detaches its listener and then ignores every message.
\<close>

theorem cleanup_rejects_pending_and_silences_handlers:
  "pendingRequests (web_cleanup sw) = [] \<and>
   trace (web_cleanup sw) = trace sw @
     concat (map (cleanup_effects (WebViewRPCError ''Client cleanup'' ''CLEANUP''))
       (pendingRequests sw)) \<and>
   (\<forall>entry \<in> set (pendingRequests sw).
      timers (web_cleanup sw) (timeoutId (snd entry)) = None \<and>
      (promises sw (reject (snd entry)) = Some Pending \<longrightarrow>
         promises (web_cleanup sw) (reject (snd entry)) =
           Some (Rejected (WebViewRPCError ''Client cleanup'' ''CLEANUP'')))) \<and>
   filter is_Invoke (trace (fold (web_receive cfg run) raws (web_cleanup sw))) =
     filter is_Invoke (trace sw) \<and>
   filter is_Invoke (trace (fold (web_handleMessage cfg run) raws (web_cleanup sw))) =
     filter is_Invoke (trace sw) \<and>
   (window sw \<longrightarrow> fold (web_receive cfg run) raws (web_cleanup sw) = web_cleanup sw) \<and>
   pendingRequests (native_cleanup sn) = [] \<and>
   trace (native_cleanup sn) = trace sn @
     concat (map (cleanup_effects (Error ''Client cleanup called'')) (pendingRequests sn)) \<and>
   (\<forall>entry \<in> set (pendingRequests sn).
      timers (native_cleanup sn) (timeoutId (snd entry)) = None \<and>
      (promises sn (reject (snd entry)) = Some Pending \<longrightarrow>
         promises (native_cleanup sn) (reject (snd entry)) =
           Some (Rejected (Error ''Client cleanup called'')))) \<and>
   filter is_Invoke
       (trace (fold (\<lambda>(now, raw). native_handleMessage cfg run now raw) timed (native_cleanup sn))) =
     filter is_Invoke (trace sn)"
proof -
  have w: "eventHandlers (web_cleanup sw) = Map.empty" "procedureHandlers (web_cleanup sw) = Map.empty"
    and n: "nativeHandlers (native_cleanup sn) = Map.empty"
    by (simp_all add: web_cleanup_fields native_cleanup_fields)
  have wi: "filter is_Invoke (trace (web_cleanup sw)) = filter is_Invoke (trace sw)"
    and ni: "filter is_Invoke (trace (native_cleanup sn)) = filter is_Invoke (trace sn)"
    by (simp_all add: web_cleanup_fields native_cleanup_fields cleanup_effects_no_Invoke)
  have 1: "\<forall>entry \<in> set (pendingRequests sw).
      timers (web_cleanup sw) (timeoutId (snd entry)) = None \<and>
      (promises sw (reject (snd entry)) = Some Pending \<longrightarrow>
         promises (web_cleanup sw) (reject (snd entry)) =
           Some (Rejected (WebViewRPCError ''Client cleanup'' ''CLEANUP'')))"
    by (simp add: web_cleanup_fields fold_cleanup_timers fold_cleanup_promises)
  have 2: "\<forall>entry \<in> set (pendingRequests sn).
      timers (native_cleanup sn) (timeoutId (snd entry)) = None \<and>
      (promises sn (reject (snd entry)) = Some Pending \<longrightarrow>
         promises (native_cleanup sn) (reject (snd entry)) =
           Some (Rejected (Error ''Client cleanup called'')))"
    by (simp add: native_cleanup_fields fold_cleanup_timers fold_cleanup_promises)
  have 3: "filter is_Invoke (trace (fold (web_receive cfg run) raws (web_cleanup sw))) =
     filter is_Invoke (trace sw)"
    using fold_web_receive_no_handlers [OF w] wi by simp
  have 4: "filter is_Invoke (trace (fold (web_handleMessage cfg run) raws (web_cleanup sw))) =
     filter is_Invoke (trace sw)"
    using fold_web_handleMessage_no_handlers [OF w] wi by simp
  have 5: "window sw \<longrightarrow> fold (web_receive cfg run) raws (web_cleanup sw) = web_cleanup sw"
    by (simp add: fold_web_receive_not_listening web_cleanup_not_listening)
  have 6: "filter is_Invoke
       (trace (fold (\<lambda>(now, raw). native_handleMessage cfg run now raw) timed (native_cleanup sn))) =
     filter is_Invoke (trace sn)"
    using fold_native_handleMessage_no_handlers [OF n] ni by simp
  from 1 2 3 4 5 6 show ?thesis
    by (simp add: web_cleanup_fields native_cleanup_fields)
qed

lemma example_busy_native_eval:
  "example_busy_native =
     \<lparr>pendingRequests = [(''a'', \<lparr>resolve = 0, reject = 0, timeoutId = 0\<rparr>),
                         (''b'', \<lparr>resolve = 1, reject = 1, timeoutId = 1\<rparr>)],
      promises = [0 \<mapsto> Pending, 1 \<mapsto> Pending],
      timers = [0 \<mapsto> \<lparr>timer_delay = 100, timer_id = ''a'', timer_reject = 0\<rparr>,
                1 \<mapsto> \<lparr>timer_delay = 100, timer_id = ''b'', timer_reject = 1\<rparr>],
      setObjects = (\<lambda>_. [])(0 := [7]), nextPromise = 2, nextTimer = 2, nextSet = 1,
      trace = [PostMessage ''a'', PostMessage ''b''],
      nativeHandlers = [''getData'' \<mapsto> 0], webView = True\<rparr>"
  by (simp add: example_busy_native_def callWeb_def registerNativeHandler_def
      createNativeClient_def native_postMessage_def example_config_def message_id_def
      set_add_def emit_effect_def Let_def)

lemma example_busy_web_eval:
  "example_busy_web =
     \<lparr>pendingRequests = [(''c'', \<lparr>resolve = 0, reject = 0, timeoutId = 0\<rparr>)],
      promises = [0 \<mapsto> Pending],
      timers = [0 \<mapsto> \<lparr>timer_delay = 100, timer_id = ''c'', timer_reject = 0\<rparr>],
      setObjects = (\<lambda>_. [])(0 := [5]), nextPromise = 1, nextTimer = 1, nextSet = 1,
      trace = [PostMessage ''c''],
      eventHandlers = [''appStateChange'' \<mapsto> 0], procedureHandlers = Map.empty,
      window = True, isWebView = True, listening = True\<rparr>"
  by (simp add: example_busy_web_def web_call_def web_handleNativeEvent_def
      createWebClient_def postToNative_def example_config_def message_id_def
      set_add_def emit_effect_def Let_def)

theorem cleanup_rejects_pending_and_silences_handlers_witness:
  "pendingRequests example_busy_native =
     [(''a'', \<lparr>resolve = 0, reject = 0, timeoutId = 0\<rparr>),
      (''b'', \<lparr>resolve = 1, reject = 1, timeoutId = 1\<rparr>)] \<and>
   promises example_busy_native 0 = Some Pending \<and>
   promises example_busy_native 1 = Some Pending \<and>
   pendingRequests (native_cleanup example_busy_native) = [] \<and>
   timers (native_cleanup example_busy_native) 0 = None \<and>
   timers (native_cleanup example_busy_native) 1 = None \<and>
   promises (native_cleanup example_busy_native) 0 = Some (Rejected (Error ''Client cleanup called'')) \<and>
   promises (native_cleanup example_busy_native) 1 = Some (Rejected (Error ''Client cleanup called'')) \<and>
   filter is_Invoke (trace (fold (\<lambda>(now, raw). native_handleMessage example_config
        (\<lambda>_ _. Returns JNull) now raw) [(1, ''x''), (2, ''a'')] (native_cleanup example_busy_native))) = [] \<and>
   window example_busy_web \<and>
   pendingRequests example_busy_web = [(''c'', \<lparr>resolve = 0, reject = 0, timeoutId = 0\<rparr>)] \<and>
   promises example_busy_web 0 = Some Pending \<and>
   timers (web_cleanup example_busy_web) 0 = None \<and>
   promises (web_cleanup example_busy_web) 0 =
     Some (Rejected (WebViewRPCError ''Client cleanup'' ''CLEANUP'')) \<and>
   fold (web_receive example_config (\<lambda>_ _. Returns JNull)) [''x'', ''c''] (web_cleanup example_busy_web)
     = web_cleanup example_busy_web"
proof -
  note inst = cleanup_rejects_pending_and_silences_handlers
    [where sn = example_busy_native and sw = example_busy_web and cfg = example_config
      and run = "\<lambda>_ _. Returns JNull" and timed = "[(1, ''x''), (2, ''a'')]"
      and raws = "[''x'', ''c'']"]
  have pn: "pendingRequests example_busy_native =
     [(''a'', \<lparr>resolve = 0, reject = 0, timeoutId = 0\<rparr>),
      (''b'', \<lparr>resolve = 1, reject = 1, timeoutId = 1\<rparr>)]"
    and p0: "promises example_busy_native 0 = Some Pending"
    and p1: "promises example_busy_native 1 = Some Pending"
    and tn: "filter is_Invoke (trace example_busy_native) = []"
    by (simp_all add: example_busy_native_eval is_Invoke_def)
  have pw: "pendingRequests example_busy_web = [(''c'', \<lparr>resolve = 0, reject = 0, timeoutId = 0\<rparr>)]"
    and q0: "promises example_busy_web 0 = Some Pending"
    and ww: "window example_busy_web"
    by (simp_all add: example_busy_web_eval)
  from inst pn p0 p1 tn pw q0 ww show ?thesis
    by simp
qed

subsection \<open>Timers and promises in reachable states\<close>

lemma timers_ok_create: "timers_ok (createWebClient w b)" "timers_ok (createNativeClient v)"
  by (simp_all add: timers_ok_def createWebClient_def createNativeClient_def)

lemma timers_ok_trace [simp]: "timers_ok (s\<lparr>trace := x\<rparr>) = timers_ok s"
  by (simp add: timers_ok_def)

lemma timers_ok_emit [simp]: "timers_ok (emit_effect e s) = timers_ok s"
  by (simp add: emit_effect_def)

lemma timers_ok_onError [simp]: "timers_ok (call_onError cfg e s) = timers_ok s"
  by (simp add: call_onError_def)

lemma map_of_delete_other: "map_of (AList.delete k al) k' = (if k' = k then None else map_of al k')"
  by (simp add: AList.delete_conv')

text \<open>Removing one entry together with its timer and settling its promise.\<close>

lemma timers_ok_settle_entry:
  assumes ok: "timers_ok s" and e: "map_of (pendingRequests s) k = Some pd"
    and s': "pendingRequests s' = AList.delete k (pendingRequests s)"
      "timers s' = (timers s)(timeoutId pd := None)"
      "nextTimer s' = nextTimer s" "nextPromise s' = nextPromise s"
      "\<And>p. p \<noteq> reject pd \<Longrightarrow> promises s' p = promises s p"
  shows "timers_ok s'"
proof -
  from ok e obtain cb where cb: "timers s (timeoutId pd) = Some cb" "timer_reject cb = reject pd"
      "timer_id cb = k" and rr: "resolve pd = reject pd"
    unfolding timers_ok_def by blast
  have u: "t = timeoutId pd" if "timers s t = Some cb'" "timer_reject cb' = reject pd" for t cb'
    using ok cb that unfolding timers_ok_def by metis
  have 1: "t < nextTimer s' \<and> timer_reject c < nextPromise s' \<and>
      promises s' (timer_reject c) = Some Pending" if "timers s' t = Some c" for t c
  proof -
    from that s' have t: "t \<noteq> timeoutId pd" "timers s t = Some c" by (auto split: if_splits)
    with u have "timer_reject c \<noteq> reject pd" by blast
    with t ok s' show ?thesis unfolding timers_ok_def by auto
  qed
  have 2: "t = t'" if "timers s' t = Some c" "timers s' t' = Some c'"
      "timer_reject c = timer_reject c'" for t t' c c'
    using that ok s' unfolding timers_ok_def by (auto split: if_splits)
  have 3: "resolve pd' = reject pd' \<and> (\<exists>c. timers s' (timeoutId pd') = Some c \<and>
      timer_reject c = reject pd' \<and> timer_id c = k')"
    if "map_of (pendingRequests s') k' = Some pd'" for k' pd'
  proof -
    from that s' have k: "k' \<noteq> k" "map_of (pendingRequests s) k' = Some pd'"
      by (auto simp: map_of_delete_other split: if_splits)
    with ok obtain c where c: "resolve pd' = reject pd'" "timers s (timeoutId pd') = Some c"
      "timer_reject c = reject pd'" "timer_id c = k'"
      unfolding timers_ok_def by blast
    with cb k have "timeoutId pd' \<noteq> timeoutId pd" by auto
    with c s' show ?thesis by auto
  qed
  from ok s' have 0: "distinct (map fst (pendingRequests s'))"
    unfolding timers_ok_def by (simp add: distinct_delete)
  from 0 1 2 3 show ?thesis unfolding timers_ok_def by blast
qed

lemma timers_ok_handleResponse:
  assumes "timers_ok s"
  shows "timers_ok (handleResponse m s)"
proof (cases "map_of (pendingRequests s) (res_id m)")
  case None
  with assms show ?thesis by (simp add: handleResponse_def)
next
  case (Some pd)
  from assms Some have rr: "resolve pd = reject pd" unfolding timers_ok_def by blast
  show ?thesis
    by (rule timers_ok_settle_entry [OF assms Some])
      (auto simp: handleResponse_def Some client_ops rr split: option.splits)
qed


lemma timers_ok_timerFires:
  assumes ok: "timers_ok s"
  shows "timers_ok (timerFires cfg t s)"
proof (cases "timers s t")
  case None
  with ok show ?thesis by (simp add: timerFires_def)
next
  case (Some cb)
  let ?s' = "timerFires cfg t s"
  have f: "pendingRequests ?s' = AList.delete (timer_id cb) (pendingRequests s)"
    "timers ?s' = (timers s)(t := None)"
    "nextTimer ?s' = nextTimer s" "nextPromise ?s' = nextPromise s"
    "\<And>p. p \<noteq> timer_reject cb \<Longrightarrow> promises ?s' p = promises s p"
    by (simp_all add: timerFires_def Some client_ops)
  have u: "t' = t" if "timers s t' = Some c" "timer_reject c = timer_reject cb" for t' c
    using ok Some that unfolding timers_ok_def by metis
  have 1: "t' < nextTimer ?s' \<and> timer_reject c < nextPromise ?s' \<and>
      promises ?s' (timer_reject c) = Some Pending" if "timers ?s' t' = Some c" for t' c
  proof -
    from that f have t: "t' \<noteq> t" "timers s t' = Some c" by (auto split: if_splits)
    with u have "timer_reject c \<noteq> timer_reject cb" by blast
    with t ok f show ?thesis unfolding timers_ok_def by auto
  qed
  have 2: "t1 = t2" if "timers ?s' t1 = Some c" "timers ?s' t2 = Some c'"
      "timer_reject c = timer_reject c'" for t1 t2 c c'
    using that ok f unfolding timers_ok_def by (auto split: if_splits)
  have 3: "resolve pd' = reject pd' \<and> (\<exists>c. timers ?s' (timeoutId pd') = Some c \<and>
      timer_reject c = reject pd' \<and> timer_id c = k')"
    if "map_of (pendingRequests ?s') k' = Some pd'" for k' pd'
  proof -
    from that f have k: "k' \<noteq> timer_id cb" "map_of (pendingRequests s) k' = Some pd'"
      by (auto simp: map_of_delete_other split: if_splits)
    with ok obtain c where c: "resolve pd' = reject pd'" "timers s (timeoutId pd') = Some c"
      "timer_reject c = reject pd'" "timer_id c = k'"
      unfolding timers_ok_def by blast
    with Some k have "timeoutId pd' \<noteq> t" by auto
    with c f show ?thesis by auto
  qed
  from ok f have 0: "distinct (map fst (pendingRequests ?s'))"
    unfolding timers_ok_def by (simp add: distinct_delete)
  from 0 1 2 3 show ?thesis unfolding timers_ok_def by blast
qed

text \<open>Allocating a promise and a timer and storing the entry, as both calls do.\<close>

lemma timers_ok_register:
  assumes ok: "timers_ok s"
    and s': "pendingRequests s' = AList.update k
        \<lparr>resolve = nextPromise s, reject = nextPromise s, timeoutId = nextTimer s\<rparr> (pendingRequests s)"
      "timers s' = (timers s)(nextTimer s \<mapsto>
         \<lparr>timer_delay = d, timer_id = k, timer_reject = nextPromise s\<rparr>)"
      "nextTimer s' = Suc (nextTimer s)" "nextPromise s' = Suc (nextPromise s)"
      "promises s' = (promises s)(nextPromise s \<mapsto> Pending)"
  shows "timers_ok s'"
proof -
  have 1: "t < nextTimer s' \<and> timer_reject c < nextPromise s' \<and>
      promises s' (timer_reject c) = Some Pending" if "timers s' t = Some c" for t c
    using that ok s' unfolding timers_ok_def by (auto split: if_splits simp: less_Suc_eq)
  have 2: "t1 = t2" if "timers s' t1 = Some c" "timers s' t2 = Some c'"
      "timer_reject c = timer_reject c'" for t1 t2 c c'
    using that ok s' unfolding timers_ok_def by (fastforce split: if_splits)
  have 3: "resolve pd' = reject pd' \<and> (\<exists>c. timers s' (timeoutId pd') = Some c \<and>
      timer_reject c = reject pd' \<and> timer_id c = k')"
    if "map_of (pendingRequests s') k' = Some pd'" for k' pd'
  proof (cases "k' = k")
    case True
    with that s' have "pd' = \<lparr>resolve = nextPromise s, reject = nextPromise s, timeoutId = nextTimer s\<rparr>"
      by (simp add: update_conv')
    with True s' show ?thesis by simp
  next
    case False
    with that s' have "map_of (pendingRequests s) k' = Some pd'" by (simp add: update_conv')
    with ok obtain c where c: "resolve pd' = reject pd'" "timers s (timeoutId pd') = Some c"
      "timer_reject c = reject pd'" "timer_id c = k'"
      unfolding timers_ok_def by blast
    with ok have "timeoutId pd' < nextTimer s" unfolding timers_ok_def by blast
    with c s' show ?thesis by auto
  qed
  from ok s' have 0: "distinct (map fst (pendingRequests s'))"
    unfolding timers_ok_def by (simp add: distinct_update)
  from 0 1 2 3 show ?thesis unfolding timers_ok_def by blast
qed


lemma timers_ok_fresh_promise:
  assumes ok: "timers_ok s"
    and s': "pendingRequests s' = pendingRequests s" "timers s' = timers s"
      "nextTimer s' = nextTimer s" "nextPromise s' = Suc (nextPromise s)"
      "\<And>p. p \<noteq> nextPromise s \<Longrightarrow> promises s' p = promises s p"
  shows "timers_ok s'"
proof -
  have "timer_reject c \<noteq> nextPromise s" if "timers s t = Some c" for t c
    using that ok unfolding timers_ok_def by fastforce
  with ok s' show ?thesis unfolding timers_ok_def by (auto simp: less_Suc_eq)
qed

lemma timers_ok_postToNative [simp]: "timers_ok (postToNative cfg m s) = timers_ok s"
  by (simp add: postToNative_def split: sum.splits)

lemma timers_ok_web_call:
  assumes "timers_ok s"
  shows "timers_ok (fst (web_call cfg procedure data corrId s))"
proof (cases "isWebView s")
  case False
  show ?thesis
    by (rule timers_ok_fresh_promise [OF assms]) (simp_all add: web_call_def False client_ops)
next
  case True
  let ?s2 = "s\<lparr>promises := (promises s)(nextPromise s \<mapsto> Pending), nextPromise := Suc (nextPromise s),
      timers := (timers s)(nextTimer s \<mapsto>
         \<lparr>timer_delay = timeout cfg, timer_id = corrId, timer_reject = nextPromise s\<rparr>),
      nextTimer := Suc (nextTimer s),
      pendingRequests := AList.update corrId
        \<lparr>resolve = nextPromise s, reject = nextPromise s, timeoutId = nextTimer s\<rparr> (pendingRequests s)\<rparr>"
  have "timers_ok ?s2"
    by (rule timers_ok_register [OF assms, of _ corrId "timeout cfg"]) simp_all
  then show ?thesis using True by (simp add: web_call_def Let_def)
qed

lemma timers_ok_reject_own_pending:
  assumes "timers_ok s"
  shows "timers_ok (fst (reject_own_pending mid e s))"
proof (cases "map_of (pendingRequests s) mid")
  case None
  with assms show ?thesis by (simp add: reject_own_pending_def)
next
  case (Some pd)
  show ?thesis
    by (rule timers_ok_settle_entry [OF assms Some])
      (auto simp: reject_own_pending_def Some client_ops)
qed

lemma timers_ok_native_postMessage:
  assumes "timers_ok s"
  shows "timers_ok (fst (native_postMessage cfg m s))"
  using assms timers_ok_reject_own_pending
  by (simp add: native_postMessage_def Let_def split: sum.splits)

lemma timers_ok_callWeb:
  assumes "timers_ok s"
  shows "timers_ok (fst (callWeb cfg procedure data corrId now s))"
proof -
  let ?s2 = "s\<lparr>promises := (promises s)(nextPromise s \<mapsto> Pending), nextPromise := Suc (nextPromise s),
      timers := (timers s)(nextTimer s \<mapsto>
         \<lparr>timer_delay = timeout cfg, timer_id = corrId, timer_reject = nextPromise s\<rparr>),
      nextTimer := Suc (nextTimer s),
      pendingRequests := AList.update corrId
        \<lparr>resolve = nextPromise s, reject = nextPromise s, timeoutId = nextTimer s\<rparr> (pendingRequests s)\<rparr>"
  let ?m = "Request \<lparr>req_id = corrId, req_procedure = procedure, req_data = data,
      req_timestamp = Some now\<rparr>"
  have ok2: "timers_ok ?s2"
    by (rule timers_ok_register [OF assms, of _ corrId "timeout cfg"]) simp_all
  have e: "map_of (pendingRequests ?s2) corrId \<noteq> None" by (simp add: update_conv')
  have "snd (native_postMessage cfg ?m ?s2) = None"
    using e by (auto simp: native_postMessage_def reject_own_pending_def message_id_def
        client_ops split: sum.splits option.splits)
  moreover have "timers_ok (fst (native_postMessage cfg ?m ?s2))"
    by (rule timers_ok_native_postMessage [OF ok2])
  moreover have "callWeb cfg procedure data corrId now s =
      (case native_postMessage cfg ?m ?s2 of
         (s3, None) \<Rightarrow> (s3, nextPromise s)
       | (s3, Some thrown) \<Rightarrow> (reject_call (nextPromise s) thrown s3, nextPromise s))"
    by (simp add: callWeb_def Let_def)
  ultimately show ?thesis
    by (cases "native_postMessage cfg ?m ?s2") auto
qed


lemma timers_ok_same_fields:
  assumes "pendingRequests s' = pendingRequests s" "timers s' = timers s"
    "promises s' = promises s" "nextTimer s' = nextTimer s" "nextPromise s' = nextPromise s"
  shows "timers_ok s' = timers_ok s"
  using assms by (simp add: timers_ok_def)

lemma cleanup_entry_sound:
  assumes "timers_sound s" and "sole_timer e s"
  shows "timers_sound (cleanup_entry r e s)"
  using assms unfolding timers_sound_def sole_timer_def
  by (auto simp: cleanup_entry_def client_ops split: if_splits)

lemma cleanup_entry_sole:
  assumes "sole_timer e' s"
  shows "sole_timer e' (cleanup_entry r e s)"
  using assms unfolding sole_timer_def
  by (auto simp: cleanup_entry_def client_ops split: if_splits)

lemma fold_cleanup_sound:
  assumes "timers_sound s" and "\<forall>e \<in> set es. sole_timer e s"
  shows "timers_sound (fold (cleanup_entry r) es s)"
  using assms
proof (induction es arbitrary: s)
  case Nil
  then show ?case by simp
next
  case (Cons e es)
  from Cons.prems have "timers_sound (cleanup_entry r e s)"
    by (simp add: cleanup_entry_sound)
  moreover from Cons.prems have "\<forall>e' \<in> set es. sole_timer e' (cleanup_entry r e s)"
    by (simp add: cleanup_entry_sole)
  ultimately show ?case using Cons.IH by simp
qed

lemma timers_ok_sound:
  assumes "timers_ok s"
  shows "timers_sound s" and "\<forall>e \<in> set (pendingRequests s). sole_timer e s"
proof -
  from assms show "timers_sound s" by (simp add: timers_ok_def timers_sound_def)
  show "\<forall>e \<in> set (pendingRequests s). sole_timer e s"
  proof
    fix e assume "e \<in> set (pendingRequests s)"
    moreover from assms have "distinct (map fst (pendingRequests s))" by (simp add: timers_ok_def)
    ultimately have "map_of (pendingRequests s) (fst e) = Some (snd e)" by simp
    with assms obtain cb where "timers s (timeoutId (snd e)) = Some cb"
      "timer_reject cb = reject (snd e)"
      unfolding timers_ok_def by blast
    with assms show "sole_timer e s" unfolding timers_ok_def sole_timer_def by metis
  qed
qed

lemma timers_sound_empty:
  assumes "timers_sound s" and "pendingRequests s = []"
  shows "timers_ok s"
  using assms by (simp add: timers_ok_def timers_sound_def)

lemma timers_sound_same_fields:
  assumes "timers s' = timers s"
    "promises s' = promises s" "nextTimer s' = nextTimer s" "nextPromise s' = nextPromise s"
  shows "timers_sound s' = timers_sound s"
  using assms by (simp add: timers_sound_def)

lemma timers_ok_web_cleanup:
  assumes "timers_ok s"
  shows "timers_ok (web_cleanup s)"
proof -
  let ?f = "fold (cleanup_entry (WebViewRPCError ''Client cleanup'' ''CLEANUP'')) (pendingRequests s) s"
  from fold_cleanup_sound [OF timers_ok_sound [OF assms]] have "timers_sound ?f" .
  moreover have "timers_sound (web_cleanup s) = timers_sound ?f"
    by (rule timers_sound_same_fields) (simp_all add: web_cleanup_def Let_def)
  ultimately show ?thesis
    by (intro timers_sound_empty) (simp_all add: web_cleanup_fields)
qed

lemma timers_ok_native_cleanup:
  assumes "timers_ok s"
  shows "timers_ok (native_cleanup s)"
proof -
  let ?f = "fold (cleanup_entry (Error ''Client cleanup called'')) (pendingRequests s) s"
  from fold_cleanup_sound [OF timers_ok_sound [OF assms]] have "timers_sound ?f" .
  moreover have "timers_sound (native_cleanup s) = timers_sound ?f"
    by (rule timers_sound_same_fields) (simp_all add: native_cleanup_def Let_def)
  ultimately show ?thesis
    by (intro timers_sound_empty) (simp_all add: native_cleanup_fields)
qed

lemma timers_ok_fold_invoke [simp]:
  "timers_ok (fold (invoke_listener cfg run d) hs s) = timers_ok s"
  by (simp add: fold_invoke_listener)

lemma timers_ok_web_handleMessage:
  assumes "timers_ok s"
  shows "timers_ok (web_handleMessage cfg run raw s)"
  using assms
  by (simp add: web_handleMessage_def web_handleEvent_def web_handleRequest_def
      web_handleRequest_catch_def Let_def timers_ok_handleResponse
      split: sum.splits message.splits option.splits outcome.splits)

lemma timers_ok_native_handleRequest:
  assumes "timers_ok s"
  shows "timers_ok (fst (native_handleRequest cfg run now m s))"
proof -
  have c: "timers_ok (fst (native_handleRequest_catch cfg now m e s'))" if "timers_ok s'" for e s'
    using timers_ok_native_postMessage [OF that, of cfg "handler_error_response m e (Some now)"]
    by (auto simp: native_handleRequest_catch_def split: prod.splits option.splits)
  have r: "timers_ok (fst (case native_postMessage cfg msg s' of
                  (s2, None) \<Rightarrow> (s2, None)
                | (s2, Some thrown) \<Rightarrow> native_handleRequest_catch cfg now m thrown s2))"
    if "timers_ok s'" for msg s'
    using timers_ok_native_postMessage [OF that, of cfg msg] c
    by (cases "native_postMessage cfg msg s'") (auto split: option.splits)
  from assms have e: "timers_ok (emit_effect x s)" for x by simp
  show ?thesis
    unfolding native_handleRequest_def Let_def
    using timers_ok_native_postMessage [OF assms] c [OF e] r [OF e]
    by (auto split: list.splits option.splits outcome.splits)
qed

lemma timers_ok_native_handleMessage:
  assumes "timers_ok s"
  shows "timers_ok (native_handleMessage cfg run now raw s)"
  using assms
  by (simp add: native_handleMessage_def native_handleEvent_def timers_ok_handleResponse
      timers_ok_native_handleRequest split: sum.splits message.splits option.splits)


lemma web_reachable_timers_ok: "web_reachable cfg run s \<Longrightarrow> timers_ok s"
proof (induction rule: web_reachable.induct)
  case (web_created hasWindow hasBridge)
  show ?case by (rule timers_ok_create)
next
  case (web_called s procedure data corrId)
  then show ?case by (simp add: timers_ok_web_call)
next
  case (web_received s raw)
  then show ?case by (simp add: web_receive_def timers_ok_web_handleMessage)
next
  case (web_timer s t)
  then show ?case by (simp add: timers_ok_timerFires)
next
  case (web_listened s eventName handler)
  have "timers_ok (fst (web_handleNativeEvent eventName handler s)) = timers_ok s"
    by (rule timers_ok_same_fields)
      (simp_all add: web_handleNativeEvent_def Let_def split: option.splits)
  with web_listened show ?case by simp
next
  case (web_unlistened s u)
  have "timers_ok (web_unregister_event u s) = timers_ok s"
    by (rule timers_ok_same_fields) (simp_all add: web_unregister_event_def Let_def)
  with web_unlistened show ?case by simp
next
  case (web_emitted s event data corrId)
  then show ?case by (simp add: web_emit_def)
next
  case (web_handled s procedureName handler)
  have "timers_ok (fst (handleWebProcedure procedureName handler s)) = timers_ok s"
    by (rule timers_ok_same_fields) (simp_all add: handleWebProcedure_def)
  with web_handled show ?case by simp
next
  case (web_unhandled s procedureName)
  have "timers_ok (web_unregister_procedure procedureName s) = timers_ok s"
    by (rule timers_ok_same_fields) (simp_all add: web_unregister_procedure_def)
  with web_unhandled show ?case by simp
next
  case (web_cleaned s)
  then show ?case by (simp add: timers_ok_web_cleanup)
qed

lemma native_reachable_timers_ok: "native_reachable cfg run s \<Longrightarrow> timers_ok s"
proof (induction rule: native_reachable.induct)
  case (native_created hasWebView)
  show ?case by (rule timers_ok_create)
next
  case (native_ref s b)
  have "timers_ok (s\<lparr>webView := b\<rparr>) = timers_ok s"
    by (rule timers_ok_same_fields) simp_all
  with native_ref show ?case by simp
next
  case (native_called s procedure data corrId now)
  then show ?case by (simp add: timers_ok_callWeb)
next
  case (native_received s now raw)
  then show ?case by (simp add: timers_ok_native_handleMessage)
next
  case (native_timer s t)
  then show ?case by (simp add: timers_ok_timerFires)
next
  case (native_emitted_web s event data corrId now)
  then show ?case by (simp add: emitWeb_def timers_ok_native_postMessage)
next
  case (native_emitted s event data corrId now)
  then show ?case by (simp add: emitNative_def timers_ok_native_postMessage)
next
  case (native_handled_web s nameStr handler)
  have "timers_ok (fst (registerWebHandler nameStr handler s)) = timers_ok s"
    by (rule timers_ok_same_fields)
      (simp_all add: registerWebHandler_def registerNativeHandler_def Let_def split: option.splits)
  with native_handled_web show ?case by simp
next
  case (native_handled s nameStr handler)
  have "timers_ok (fst (registerNativeHandler nameStr handler s)) = timers_ok s"
    by (rule timers_ok_same_fields)
      (simp_all add: registerNativeHandler_def Let_def split: option.splits)
  with native_handled show ?case by simp
next
  case (native_unhandled s u)
  have "timers_ok (native_unregister u s) = timers_ok s"
    by (rule timers_ok_same_fields) (simp_all add: native_unregister_def Let_def)
  with native_unhandled show ?case by simp
next
  case (native_cleaned s)
  then show ?case by (simp add: timers_ok_native_cleanup)
qed

lemma timers_ok_pending:
  "timers_ok s \<Longrightarrow> timers s t = Some cb \<Longrightarrow> promises s (timer_reject cb) = Some Pending"
  unfolding timers_ok_def by blast

subsection \<open>Timeouts\<close>

text \<open>
  Every natural number below \<open>2^53\<close> is a number of the program, and \<open>Number::toString\<close>
  prints all its decimal digits.  Above, it prints the shortest digits that identify the
  double, and from \<open>10^21\<close> on it uses the exponent notation.
\<close>

lemma bit_length_bounds: "n \<noteq> 0 \<Longrightarrow> 2 ^ (bit_length n - 1) \<le> n \<and> n < 2 ^ bit_length n"
proof (induction n rule: bit_length.induct)
  case (1 n)
  show ?case
  proof (cases "n div 2 = 0")
    case True
    with "1.prems" have "n = 1" by auto
    then show ?thesis by (simp add: bit_length.simps [of "Suc 0"] bit_length.simps [of 0])
  next
    case False
    with 1 have ih: "2 ^ (bit_length (n div 2) - 1) \<le> n div 2" "n div 2 < 2 ^ bit_length (n div 2)"
      by simp_all
    from False have pos: "0 < bit_length (n div 2)"
      by (simp add: bit_length.simps [of "n div 2"])
    have b: "bit_length n = Suc (bit_length (n div 2))"
      using "1.prems" by (simp add: bit_length.simps [of n])
    from pos obtain k where k: "bit_length (n div 2) = Suc k" by (cases "bit_length (n div 2)") auto
    with ih b show ?thesis by simp arith
  qed
qed

lemma to_Number_large:
  assumes "2 ^ 53 \<le> v" and "to_Number v = Some y"
  shows "(2::nat) ^ 53 \<le> y"
proof -
  from assms(1) have nz: "v \<noteq> 0" by auto
  from bit_length_bounds [OF nz] have lo: "2 ^ (bit_length v - 1) \<le> v" and hi: "v < 2 ^ bit_length v"
    by simp_all
  have gt: "53 < bit_length v"
  proof (rule power_less_imp_less_exp)
    show "1 < (2::nat)" by simp
    from assms(1) hi show "(2::nat) ^ 53 < 2 ^ bit_length v" by (rule le_less_trans)
  qed
  define e where "e = bit_length v - 53"
  from gt have e: "0 < e" and bl: "bit_length v - 1 = 52 + e" by (simp_all add: e_def)
  from lo bl have "2 ^ 52 * 2 ^ e \<le> v" by (simp add: power_add)
  then have q: "2 ^ 52 \<le> v div 2 ^ e"
    by (simp add: less_eq_div_iff_mult_less_eq)
  from assms have "y = v div 2 ^ e * 2 ^ e \<or> y = (v div 2 ^ e + 1) * 2 ^ e"
    by (auto simp: to_Number_def Let_def e_def split: if_splits)
  then have y: "v div 2 ^ e * 2 ^ e \<le> y" by auto
  from e have "(2::nat) \<le> 2 ^ e" using power_increasing [of 1 e "2::nat"] by simp
  with q have "(2::nat) ^ 52 * 2 \<le> v div 2 ^ e * 2 ^ e" by (rule mult_le_mono)
  with y show ?thesis by simp
qed

lemma shortest_safe: "x < 2 ^ 53 \<Longrightarrow> shortest x j = x"
proof (induction j)
  case 0
  then show ?case by simp
next
  case (Suc j)
  define m :: nat where "m = 10 ^ Suc j"
  define lo where "lo = (x div m) * m"
  have mpos: "0 < m" by (simp add: m_def)
  have lo_le: "lo \<le> x" by (simp add: lo_def)
  have hi_gt: "x < lo + m"
    using mpos unfolding lo_def by (metis add.commute dividend_less_div_times mult.commute)
  from lo_le Suc.prems have tl: "to_Number lo = Some lo" by (simp add: to_Number_def)
  have th: "to_Number (lo + m) \<noteq> Some x"
  proof (cases "lo + m < 2 ^ 53")
    case True
    with hi_gt show ?thesis by (simp add: to_Number_def)
  next
    case False
    then have "2 ^ 53 \<le> lo + m" by simp
    from to_Number_large [OF this] Suc.prems show ?thesis by fastforce
  qed
  show ?case
  proof (cases "lo = x")
    case True
    with tl th show ?thesis
      by (simp add: Let_def m_def [symmetric] lo_def [symmetric] del: power_Suc)
  next
    case False
    with tl th Suc show ?thesis
      by (simp add: Let_def m_def [symmetric] lo_def [symmetric] del: power_Suc)
  qed
qed

lemma length_show_nat: "n < 10 ^ k \<Longrightarrow> 0 < k \<Longrightarrow> length (show_nat n) \<le> k"
proof (induction n arbitrary: k rule: show_nat.induct)
  case (1 n)
  show ?case
  proof (cases "n < 10")
    case True
    with "1.prems" show ?thesis by (simp add: show_nat.simps [of n])
  next
    case False
    from "1.prems" obtain k' where k: "k = Suc k'" by (cases k) auto
    with False "1.prems" have "0 < k'" by (cases k') auto
    moreover from "1.prems" k have "n div 10 < 10 ^ k'" by (simp add: less_mult_imp_div_less mult.commute)
    ultimately have "length (show_nat (n div 10)) \<le> k'" using 1 False by simp
    with False k show ?thesis by (simp add: show_nat.simps [of n])
  qed
qed

lemma Number_toString_safe:
  assumes "n < 2 ^ 53"
  shows "Number_toString n = show_nat n"
proof -
  from assms have "n < 10 ^ 21" by simp
  then have "length (show_nat n) \<le> 21" by (rule length_show_nat) simp
  with assms show ?thesis
    by (simp add: Number_toString_def to_Number_def shortest_safe Let_def)
qed

lemma shortest_numeral:
  "shortest x (numeral k) =
     (let m = 10 ^ numeral k; lo = (x div m) * m; hi = lo + m
      in if to_Number lo = Some x
         then (if to_Number hi = Some x \<and> (hi - x < x - lo \<or> (hi - x = x - lo \<and> odd (x div m)))
               then hi else lo)
         else if to_Number hi = Some x then hi
         else shortest x (pred_numeral k))"
proof -
  have "numeral k = Suc (pred_numeral k)" by (rule numeral_eq_Suc)
  then show ?thesis by (simp only: shortest.simps)
qed

lemma is_Number_safe: "n < 2 ^ 53 \<Longrightarrow> is_Number n"
  by (simp add: is_Number_def to_Number_def)

lemma Number_toString_2_63: "Number_toString (2 ^ 63) = ''9223372036854776000''"
  by (simp add: Number_toString_def to_Number_def Let_def bit_length.simps show_nat.simps
      digit_char_def shortest_numeral strip_zeros_def)

lemma Number_toString_10_21: "Number_toString (10 ^ 21) = ''1e+21''"
  by (simp add: Number_toString_def to_Number_def Let_def bit_length.simps show_nat.simps
      digit_char_def shortest_numeral strip_zeros_def)

lemma is_Number_2_63: "is_Number (2 ^ 63)"
  by (simp add: is_Number_def to_Number_def Let_def bit_length.simps)

lemma show_nat_100: "show_nat 100 = ''100''"
  by (simp add: show_nat.simps digit_char_def)

lemma Number_toString_100: "Number_toString 100 = ''100''"
  by (simp add: Number_toString_safe show_nat_100)

lemma web_call_arms_timer:
  assumes "isWebView s"
  shows "timers (fst (web_call cfg procedure data corrId s)) (nextTimer s) =
           Some \<lparr>timer_delay = timeout cfg, timer_id = corrId, timer_reject = nextPromise s\<rparr> \<and>
         snd (web_call cfg procedure data corrId s) = nextPromise s \<and>
         promises (fst (web_call cfg procedure data corrId s)) (nextPromise s) = Some Pending \<and>
         map_of (pendingRequests (fst (web_call cfg procedure data corrId s))) corrId =
           Some \<lparr>resolve = nextPromise s, reject = nextPromise s, timeoutId = nextTimer s\<rparr>"
  using assms
  by (simp add: web_call_def postToNative_def client_ops update_conv' split: sum.splits)

lemma callWeb_arms_timer:
  assumes "webView s"
    and "serializer cfg (Request \<lparr>req_id = corrId, req_procedure = procedure,
           req_data = data, req_timestamp = Some now\<rparr>) = Inr raw"
  shows "timers (fst (callWeb cfg procedure data corrId now s)) (nextTimer s) =
           Some \<lparr>timer_delay = timeout cfg, timer_id = corrId, timer_reject = nextPromise s\<rparr> \<and>
         snd (callWeb cfg procedure data corrId now s) = nextPromise s \<and>
         promises (fst (callWeb cfg procedure data corrId now s)) (nextPromise s) = Some Pending \<and>
         map_of (pendingRequests (fst (callWeb cfg procedure data corrId now s))) corrId =
           Some \<lparr>resolve = nextPromise s, reject = nextPromise s, timeoutId = nextTimer s\<rparr>"
  using assms
  by (simp add: callWeb_def native_postMessage_def client_ops update_conv')

lemma timerFires_rejects:
  fixes s :: "'a client_scheme"
  assumes "timers s t = Some cb" and "promises s (timer_reject cb) = Some Pending"
  shows "promises (timerFires cfg t s) (timer_reject cb) =
           Some (Rejected (WebViewRPCTimeoutError (timeout_message (timeout cfg)) (timeout cfg))) \<and>
         trace (timerFires cfg t s) =
           trace s @ [RejectCall (timer_reject cb)
             (WebViewRPCTimeoutError (timeout_message (timeout cfg)) (timeout cfg))] \<and>
         map_of (pendingRequests (timerFires cfg t s)) (timer_id cb) = None \<and>
         timers (timerFires cfg t s) t = None"
  using assms by (simp add: timerFires_def client_ops map_of_delete_same)

text \<open>
  C2.  A call arms a timer with the configured delay whose callback holds the request's
  id and promise (\<open>call\<close> inside a WebView, \<open>callWeb\<close> when the message went out).  When
  such a timer fires while the promise is still pending, the pending entry of that id is
  gone, the timer is spent, and the promise is rejected with an error whose code is
  \<open>TIMEOUT\<close>, whose \<open>timeout\<close> is the configured duration and whose message is
  \<open>Request timed out after <duration>ms\<close>, the duration printed as the template literal
  prints a number (\<open>Number_toString\<close>): all its decimal digits when it is below \<open>2^53\<close>.
  In every state that a client can reach, the promise of an armed timer is still pending.
\<close>

theorem timeout_rejects_with_timeout_error:
  fixes s :: "'a client_scheme" and sw :: web_client and sn :: native_client
  shows
    "(timers s t = Some cb \<and> promises s (timer_reject cb) = Some Pending \<longrightarrow>
        (\<exists>e. promises (timerFires cfg t s) (timer_reject cb) = Some (Rejected e) \<and>
             trace (timerFires cfg t s) = trace s @ [RejectCall (timer_reject cb) e] \<and>
             err_code e = Some ''TIMEOUT'' \<and>
             err_timeout e = Some (timeout cfg) \<and>
             (is_Number (timeout cfg) \<longrightarrow>
                err_message e =
                  ''Request timed out after '' @ Number_toString (timeout cfg) @ ''ms'') \<and>
             (timeout cfg < 2 ^ 53 \<longrightarrow>
                err_message e = ''Request timed out after '' @ show_nat (timeout cfg) @ ''ms'')) \<and>
        map_of (pendingRequests (timerFires cfg t s)) (timer_id cb) = None \<and>
        timers (timerFires cfg t s) t = None) \<and>
     (isWebView sw \<longrightarrow>
        timers (fst (web_call cfg procedure data corrId sw)) (nextTimer sw) =
          Some \<lparr>timer_delay = timeout cfg, timer_id = corrId,
                timer_reject = snd (web_call cfg procedure data corrId sw)\<rparr> \<and>
        promises (fst (web_call cfg procedure data corrId sw))
          (snd (web_call cfg procedure data corrId sw)) = Some Pending) \<and>
     (webView sn \<and>
      serializer cfg (Request \<lparr>req_id = corrId, req_procedure = procedure,
          req_data = data, req_timestamp = Some now\<rparr>) = Inr raw \<longrightarrow>
        timers (fst (callWeb cfg procedure data corrId now sn)) (nextTimer sn) =
          Some \<lparr>timer_delay = timeout cfg, timer_id = corrId,
                timer_reject = snd (callWeb cfg procedure data corrId now sn)\<rparr> \<and>
        promises (fst (callWeb cfg procedure data corrId now sn))
          (snd (callWeb cfg procedure data corrId now sn)) = Some Pending) \<and>
     (web_reachable cfg run sw \<and> timers sw t = Some cb \<longrightarrow>
        promises sw (timer_reject cb) = Some Pending) \<and>
     (native_reachable cfg run sn \<and> timers sn t = Some cb \<longrightarrow>
        promises sn (timer_reject cb) = Some Pending)"
proof (intro conjI impI)
  assume a: "timers s t = Some cb \<and> promises s (timer_reject cb) = Some Pending"
  let ?e = "WebViewRPCTimeoutError (timeout_message (timeout cfg)) (timeout cfg)"
  have "err_code ?e = Some ''TIMEOUT'' \<and> err_timeout ?e = Some (timeout cfg) \<and>
        (is_Number (timeout cfg) \<longrightarrow>
           err_message ?e =
             ''Request timed out after '' @ Number_toString (timeout cfg) @ ''ms'') \<and>
        (timeout cfg < 2 ^ 53 \<longrightarrow>
           err_message ?e = ''Request timed out after '' @ show_nat (timeout cfg) @ ''ms'')"
    by (simp add: WebViewRPCTimeoutError_def WebViewRPCError_def Error_def timeout_message_def
        Number_toString_safe)
  with a timerFires_rejects [of s t cb cfg]
  show "\<exists>e. promises (timerFires cfg t s) (timer_reject cb) = Some (Rejected e) \<and>
             trace (timerFires cfg t s) = trace s @ [RejectCall (timer_reject cb) e] \<and>
             err_code e = Some ''TIMEOUT'' \<and>
             err_timeout e = Some (timeout cfg) \<and>
             (is_Number (timeout cfg) \<longrightarrow>
                err_message e =
                  ''Request timed out after '' @ Number_toString (timeout cfg) @ ''ms'') \<and>
             (timeout cfg < 2 ^ 53 \<longrightarrow>
                err_message e = ''Request timed out after '' @ show_nat (timeout cfg) @ ''ms'')"
    by blast
  from a timerFires_rejects [of s t cb cfg]
  show "map_of (pendingRequests (timerFires cfg t s)) (timer_id cb) = None"
    and "timers (timerFires cfg t s) t = None"
    by simp_all
next
  assume "isWebView sw"
  from web_call_arms_timer [OF this, of cfg procedure data corrId]
  show "timers (fst (web_call cfg procedure data corrId sw)) (nextTimer sw) =
          Some \<lparr>timer_delay = timeout cfg, timer_id = corrId,
                timer_reject = snd (web_call cfg procedure data corrId sw)\<rparr>"
    and "promises (fst (web_call cfg procedure data corrId sw))
          (snd (web_call cfg procedure data corrId sw)) = Some Pending"
    by simp_all
next
  assume "webView sn \<and>
      serializer cfg (Request \<lparr>req_id = corrId, req_procedure = procedure,
          req_data = data, req_timestamp = Some now\<rparr>) = Inr raw"
  then have "webView sn" and "serializer cfg (Request \<lparr>req_id = corrId, req_procedure = procedure,
          req_data = data, req_timestamp = Some now\<rparr>) = Inr raw"
    by simp_all
  from callWeb_arms_timer [OF this]
  show "timers (fst (callWeb cfg procedure data corrId now sn)) (nextTimer sn) =
          Some \<lparr>timer_delay = timeout cfg, timer_id = corrId,
                timer_reject = snd (callWeb cfg procedure data corrId now sn)\<rparr>"
    and "promises (fst (callWeb cfg procedure data corrId now sn))
          (snd (callWeb cfg procedure data corrId now sn)) = Some Pending"
    by simp_all
next
  assume "web_reachable cfg run sw \<and> timers sw t = Some cb"
  then show "promises sw (timer_reject cb) = Some Pending"
    using timers_ok_pending [OF web_reachable_timers_ok] by blast
next
  assume "native_reachable cfg run sn \<and> timers sn t = Some cb"
  then show "promises sn (timer_reject cb) = Some Pending"
    using timers_ok_pending [OF native_reachable_timers_ok] by blast
qed

text \<open>
  The example of the specification: the timeout is 100, the peer never answers, the timer
  of the request fires.
\<close>

theorem timeout_rejects_with_timeout_error_witness:
  "timeout example_config = 100 \<and> is_Number 100 \<and>
   timers example_pending_native 0 =
     Some \<lparr>timer_delay = 100, timer_id = ''a'', timer_reject = 0\<rparr> \<and>
   promises example_pending_native 0 = Some Pending \<and>
   (\<exists>e. promises (timerFires example_config 0 example_pending_native) 0 = Some (Rejected e) \<and>
        err_code e = Some ''TIMEOUT'' \<and> err_timeout e = Some 100 \<and>
        err_message e = ''Request timed out after 100ms'') \<and>
   map_of (pendingRequests (timerFires example_config 0 example_pending_native)) ''a'' = None \<and>
   timers (fst (web_call example_config ''navigate'' JNull ''a'' (createWebClient True True))) 0 =
     Some \<lparr>timer_delay = 100, timer_id = ''a'', timer_reject = 0\<rparr> \<and>
   timers (fst (callWeb example_config ''navigate'' JNull ''a'' 0 (createNativeClient True))) 0 =
     Some \<lparr>timer_delay = 100, timer_id = ''a'', timer_reject = 0\<rparr> \<and>
   native_reachable example_config (\<lambda>_ _. Returns JNull) example_pending_native \<and>
   web_reachable example_config (\<lambda>_ _. Returns JNull)
     (fst (web_call example_config ''navigate'' JNull ''a'' (createWebClient True True)))"
proof -
  let ?cb = "\<lparr>timer_delay = 100, timer_id = ''a'', timer_reject = 0\<rparr>"
  let ?run = "\<lambda>(_::handler) (_::jsval). Returns JNull"
  let ?w = "fst (web_call example_config ''navigate'' JNull ''a'' (createWebClient True True))"
  have rn: "native_reachable example_config ?run example_pending_native"
    unfolding example_pending_native_def
    by (intro native_reachable.native_called native_reachable.native_created)
  have rw: "web_reachable example_config ?run ?w"
    by (intro web_reachable.web_called web_reachable.web_created)
  have t: "timers example_pending_native 0 = Some ?cb"
    by (simp add: example_pending_native_eval)
  have p: "promises example_pending_native (timer_reject ?cb) = Some Pending"
    using timeout_rejects_with_timeout_error
        [where sn = example_pending_native and t = 0 and cfg = example_config and cb = ?cb
          and run = ?run] rn t
    by blast
  have w: "isWebView (createWebClient True True)"
    and nw: "nextTimer (createWebClient True True) = 0"
    by (simp_all add: createWebClient_def)
  have v: "webView (createNativeClient True)"
    and nn: "nextTimer (createNativeClient True) = 0"
    by (simp_all add: createNativeClient_def)
  have c: "timeout example_config = 100"
    by (simp add: example_config_def)
  have r: "serializer example_config (Request \<lparr>req_id = ''a'', req_procedure = ''navigate'',
          req_data = JNull, req_timestamp = Some 0\<rparr>) = Inr ''a''"
    by (simp add: example_config_def message_id_def)
  have sw: "snd (web_call example_config ''navigate'' JNull ''a'' (createWebClient True True)) = 0"
    by (simp add: web_call_def createWebClient_def)
  have sn: "snd (callWeb example_config ''navigate'' JNull ''a'' 0 (createNativeClient True)) = 0"
    using callWeb_arms_timer [OF v r] by (simp add: createNativeClient_def)
  note inst = timeout_rejects_with_timeout_error
        [where s = example_pending_native and t = 0 and cfg = example_config and cb = ?cb
          and sw = "createWebClient True True" and sn = "createNativeClient True"
          and procedure = "''navigate''" and data = JNull and corrId = "''a''"
          and now = 0 and raw = "''a''"]
  have n: "is_Number 100"
    by (simp add: is_Number_safe)
  from inst t p c n have 1:
    "\<exists>e. promises (timerFires example_config 0 example_pending_native) 0 = Some (Rejected e) \<and>
        err_code e = Some ''TIMEOUT'' \<and> err_timeout e = Some 100 \<and>
        err_message e = ''Request timed out after 100ms''"
    by (auto simp: show_nat_100)
  from inst t p have 2:
    "map_of (pendingRequests (timerFires example_config 0 example_pending_native)) ''a'' = None"
    by simp
  from inst w nw c sw have 3:
    "timers (fst (web_call example_config ''navigate'' JNull ''a'' (createWebClient True True))) 0 =
       Some ?cb"
    by simp
  from inst v nn c sn r have 4:
    "timers (fst (callWeb example_config ''navigate'' JNull ''a'' 0 (createNativeClient True))) 0 =
       Some ?cb"
    by simp
  from t p c n 1 2 3 4 rn rw show ?thesis by simp
qed

subsection \<open>Serialization failures\<close>

lemma callWeb_serializer_throws:
  assumes "webView s"
    and "serializer cfg (Request \<lparr>req_id = corrId, req_procedure = procedure,
           req_data = data, req_timestamp = Some now\<rparr>) = Inl error"
  shows "promises (fst (callWeb cfg procedure data corrId now s)) (nextPromise s) =
           Some (Rejected error) \<and>
         snd (callWeb cfg procedure data corrId now s) = nextPromise s \<and>
         map_of (pendingRequests (fst (callWeb cfg procedure data corrId now s))) corrId = None \<and>
         timers (fst (callWeb cfg procedure data corrId now s)) (nextTimer s) = None \<and>
         trace (fst (callWeb cfg procedure data corrId now s)) =
           trace s @ (if onError cfg then [OnError error] else []) @
             [ClearTimeout (nextTimer s), RejectCall (nextPromise s) error]"
  using assms
  by (simp add: callWeb_def native_postMessage_def reject_own_pending_def is_request_def
      message_id_def client_ops update_conv' map_of_delete_same)

lemma web_call_serializer_throws:
  assumes "isWebView s"
    and "serializer cfg (Request \<lparr>req_id = corrId, req_procedure = procedure,
           req_data = data, req_timestamp = None\<rparr>) = Inl error"
  shows "promises (fst (web_call cfg procedure data corrId s)) (nextPromise s) = Some Pending \<and>
         map_of (pendingRequests (fst (web_call cfg procedure data corrId s))) corrId =
           Some \<lparr>resolve = nextPromise s, reject = nextPromise s, timeoutId = nextTimer s\<rparr> \<and>
         trace (fst (web_call cfg procedure data corrId s)) =
           trace s @ (if onError cfg then [OnError error] else [])"
  using assms
  by (simp add: web_call_def postToNative_def client_ops update_conv')

text \<open>
  C3.  The native client does what the claim says (\<open>callWeb_serializer_throws\<close>).  The web
  client does not: when the serializer throws on a request, \<open>postToNative\<close> only hands the
  error to the sink.  Here \<open>call\<close> on a new web client inside a WebView, with a serializer
  that throws, leaves the entry in \<open>pendingRequests\<close>, the timer armed and the promise
  pending; the promise is settled only when the timer fires, with the timeout error.
\<close>

theorem web_call_stays_pending_when_serializer_throws:
  "web_call failing_config ''share'' JNull ''a'' (createWebClient True True) =
     (\<lparr>pendingRequests = [(''a'', \<lparr>resolve = 0, reject = 0, timeoutId = 0\<rparr>)],
       promises = [0 \<mapsto> Pending],
       timers = [0 \<mapsto> \<lparr>timer_delay = 100, timer_id = ''a'', timer_reject = 0\<rparr>],
       setObjects = (\<lambda>_. []), nextPromise = 1, nextTimer = 1, nextSet = 0,
       trace = [OnError (Error ''Serialization failed'')],
       eventHandlers = Map.empty, procedureHandlers = Map.empty,
       window = True, isWebView = True, listening = True\<rparr>, 0) \<and>
   promises (timerFires failing_config 0
       (fst (web_call failing_config ''share'' JNull ''a'' (createWebClient True True)))) 0 =
     Some (Rejected (WebViewRPCTimeoutError ''Request timed out after 100ms'' 100))"
  by (simp add: web_call_def createWebClient_def postToNative_def failing_config_def client_ops
      timerFires_def timeout_message_def Number_toString_100)

subsection \<open>Registration of request handlers\<close>

lemma native_stale_unregister:
  assumes "f \<noteq> g" and "nativeHandlers s name = None"
  shows "native_listeners (fst (registerNativeHandler name g
            (fst (registerNativeHandler name f s)))) name = [f, g] \<and>
         native_listeners (native_unregister (snd (registerNativeHandler name f s))
            (fst (registerNativeHandler name g (fst (registerNativeHandler name f s))))) name = [g]"
  using assms
  by (simp add: registerNativeHandler_def native_unregister_def native_listeners_def
      set_add_def set_delete_def Let_def)

text \<open>
  C4.  On the native client the function returned for \<open>f\<close> removes \<open>f\<close> only
  (\<open>native_stale_unregister\<close>).  On the web client it deletes whatever is registered under
  the procedure's name: after \<open>handle('navigate', f)\<close> and \<open>handle('navigate', g)\<close>, the
  function returned for \<open>f\<close> removes \<open>g\<close>, and a later request for \<open>navigate\<close> invokes no
  handler.
\<close>

theorem web_stale_unregister_removes_current_handler:
  "procedureHandlers
     (fst (handleWebProcedure ''navigate'' 2
        (fst (handleWebProcedure ''navigate'' 1 (createWebClient True True))))) ''navigate'' = Some 2 \<and>
   procedureHandlers
     (web_unregister_procedure
        (snd (handleWebProcedure ''navigate'' 1 (createWebClient True True)))
        (fst (handleWebProcedure ''navigate'' 2
           (fst (handleWebProcedure ''navigate'' 1 (createWebClient True True)))))) ''navigate'' = None \<and>
   filter is_Invoke (trace
     (web_handleRequest example_config (\<lambda>_ _. Returns JNull)
        \<lparr>req_id = ''r'', req_procedure = ''navigate'', req_data = JNull, req_timestamp = None\<rparr>
        (web_unregister_procedure
           (snd (handleWebProcedure ''navigate'' 1 (createWebClient True True)))
           (fst (handleWebProcedure ''navigate'' 2
              (fst (handleWebProcedure ''navigate'' 1 (createWebClient True True)))))))) = []"
  by (simp add: handleWebProcedure_def web_unregister_procedure_def createWebClient_def
      web_handleRequest_def postToNative_def example_config_def emit_effect_def is_Invoke_def)

lemma web_replaces_handler:
  "procedureHandlers (fst (handleWebProcedure name g (fst (handleWebProcedure name f s)))) name
     = Some g \<and>
   filter is_Invoke (trace (web_handleRequest cfg run (m\<lparr>req_procedure := name\<rparr>)
       (fst (handleWebProcedure name g (fst (handleWebProcedure name f s))))))
     = filter is_Invoke (trace s) @ [Invoke g (req_data m)]"
  by (simp add: handleWebProcedure_def web_handleRequest_def web_handleRequest_catch_def
      postToNative_def client_ops is_Invoke_def split: outcome.splits sum.splits)

text \<open>
  C5.  On the web client a second registration replaces the first, and a request invokes
  the second handler only (\<open>web_replaces_handler\<close>).  On the native client the second
  registration is added to the \<open>Set\<close> after the first and \<open>handleRequest\<close> calls the first
  member: after \<open>handle('getData', f)\<close> and \<open>handle('getData', g)\<close>, a request for
  \<open>getData\<close> invokes \<open>f\<close> and answers with its result.
\<close>

theorem native_request_invokes_first_registered_handler:
  "native_listeners
     (fst (registerNativeHandler ''getData'' 2
        (fst (registerNativeHandler ''getData'' 1 (createNativeClient True))))) ''getData'' = [1, 2] \<and>
   trace (fst (native_handleRequest example_config (\<lambda>h d. Returns (JNum (int h))) 0
        \<lparr>req_id = ''r'', req_procedure = ''getData'', req_data = JNull, req_timestamp = None\<rparr>
        (fst (registerNativeHandler ''getData'' 2
           (fst (registerNativeHandler ''getData'' 1 (createNativeClient True)))))))
     = [Invoke 1 JNull, PostMessage ''r'']"
  by (simp add: registerNativeHandler_def native_handleRequest_def native_listeners_def
      createNativeClient_def native_postMessage_def example_config_def result_response_def
      message_id_def set_add_def client_ops)

subsection \<open>A handler that throws\<close>

lemma native_callee_handler_throws:
  assumes "nativeHandlers s (req_procedure m) = Some a" and "setObjects s a = h # hs"
    and "run h (req_data m) = Throws e \<or> run h (req_data m) = Rejects e"
    and "webView s"
    and "serializer cfg (handler_error_response m e (Some now)) = Inr raw"
  shows "native_handleRequest cfg run now m s =
           (s\<lparr>trace := trace s @ [Invoke h (req_data m), PostMessage raw] @
                (if onError cfg then [OnError e] else [])\<rparr>, None)"
  using assms
  by (auto simp: native_handleRequest_def native_handleRequest_catch_def native_postMessage_def
      client_ops)

text \<open>
  C7.  The web client as callee, inside a WebView, with a handler registered for the
  procedure that throws, or returns a promise that rejects with, an error \<open>e\<close>: the handler
  is called, \<open>e\<close> goes to the sink when one is configured, and the serialized response
  \<open>{id, error: {message: e.message, code: 'HANDLER_ERROR'}}\<close> is posted.  The native client
  as caller, whose deserializer reads what was posted as that response and which holds a
  pending entry for the id: the entry's promise is rejected with a \<open>WebViewRPCError\<close> whose
  code is \<open>HANDLER_ERROR\<close> and whose message is that of \<open>e\<close>.
\<close>

theorem handler_error_reaches_caller:
  assumes "procedureHandlers s (req_procedure m) = Some h"
    and "run h (req_data m) = Throws e \<or> run h (req_data m) = Rejects e"
    and "isWebView s"
    and "serializer cfg (handler_error_response m e None) = Inr raw"
    and "deserializer ccfg raw = Inr (handler_error_response m e None)"
    and "map_of (pendingRequests c) (req_id m) = Some pd"
    and "promises c (reject pd) = Some Pending"
  shows "trace (web_handleRequest cfg run m s) =
           trace s @ [Invoke h (req_data m)] @ (if onError cfg then [OnError e] else []) @
             [PostMessage raw] \<and>
         handler_error_response m e None =
           Response \<lparr>res_id = req_id m, res_data = JUndefined,
             res_error = Some \<lparr>info_message = err_message e, info_code = ''HANDLER_ERROR''\<rparr>,
             res_timestamp = None\<rparr> \<and>
         promises (native_handleMessage ccfg crun now raw c) (reject pd) =
           Some (Rejected (WebViewRPCError (err_message e) ''HANDLER_ERROR'')) \<and>
         err_code (WebViewRPCError (err_message e) ''HANDLER_ERROR'') = Some ''HANDLER_ERROR'' \<and>
         err_message (WebViewRPCError (err_message e) ''HANDLER_ERROR'') = err_message e"
  using assms
  by (auto simp: web_handleRequest_def web_handleRequest_catch_def postToNative_def
      handler_error_response_def native_handleMessage_def handleResponse_def client_ops
      WebViewRPCError_def Error_def)

text \<open>
  A web client whose handler for \<open>navigate\<close> throws \<open>Error("boom")\<close> receives the request
  \<open>a\<close>; the native client of \<open>example_pending_native\<close> is waiting for \<open>a\<close>.
\<close>

theorem handler_error_reaches_caller_witness:
  "trace (web_handleRequest boom_reply_config (\<lambda>_ _. Throws (Error ''boom''))
       \<lparr>req_id = ''a'', req_procedure = ''navigate'', req_data = JNull, req_timestamp = Some 0\<rparr>
       (fst (handleWebProcedure ''navigate'' 1 (createWebClient True True)))) =
     [Invoke 1 JNull, OnError (Error ''boom''), PostMessage ''a''] \<and>
   promises example_pending_native 0 = Some Pending \<and>
   promises (native_handleMessage boom_reply_config (\<lambda>_ _. Returns JNull) 1 ''a''
       example_pending_native) 0 =
     Some (Rejected (WebViewRPCError ''boom'' ''HANDLER_ERROR'')) \<and>
   err_code (WebViewRPCError ''boom'' ''HANDLER_ERROR'') = Some ''HANDLER_ERROR'' \<and>
   err_message (WebViewRPCError ''boom'' ''HANDLER_ERROR'') = ''boom''"
proof -
  let ?s = "fst (handleWebProcedure ''navigate'' 1 (createWebClient True True))"
  let ?m = "\<lparr>req_id = ''a'', req_procedure = ''navigate'', req_data = JNull,
              req_timestamp = Some 0\<rparr>"
  let ?run = "\<lambda>(_::handler) (_::jsval). Throws (Error ''boom'')"
  let ?pd = "\<lparr>resolve = 0, reject = 0, timeoutId = 0\<rparr>"
  have 1: "procedureHandlers ?s (req_procedure ?m) = Some 1"
    and 3: "isWebView ?s"
    and t: "trace ?s = []"
    by (simp_all add: handleWebProcedure_def createWebClient_def)
  have 2: "?run 1 (req_data ?m) = Throws (Error ''boom'') \<or>
           ?run 1 (req_data ?m) = Rejects (Error ''boom'')"
    by simp
  have 4: "serializer boom_reply_config (handler_error_response ?m (Error ''boom'') None) = Inr ''a''"
    and 5: "deserializer boom_reply_config ''a'' =
              Inr (handler_error_response ?m (Error ''boom'') None)"
    and o: "onError boom_reply_config"
    by (simp_all add: boom_reply_config_def handler_error_response_def message_id_def Error_def)
  have 6: "map_of (pendingRequests example_pending_native) (req_id ?m) = Some ?pd"
    and 7: "promises example_pending_native (reject ?pd) = Some Pending"
    by (simp_all add: example_pending_native_eval)
  from handler_error_reaches_caller [OF 1 2 3 4 5 6 7, of "\<lambda>_ _. Returns JNull" 1] t o 7
  show ?thesis
    by (simp add: Error_def)
qed

subsection \<open>The default encoding read back\<close>

lemma digit_char_props:
  assumes "d < 10"
  shows "is_digit (digit_char d)" and "digit_val (digit_char d) = d"
    and "(digit_char d = CHR ''0'') = (d = 0)"
proof -
  from assms have "d = 0 \<or> d = 1 \<or> d = 2 \<or> d = 3 \<or> d = 4 \<or> d = 5 \<or> d = 6 \<or> d = 7 \<or>
      d = 8 \<or> d = 9"
    by arith
  then show "is_digit (digit_char d)" and "digit_val (digit_char d) = d"
    and "(digit_char d = CHR ''0'') = (d = 0)"
    by (auto simp: digit_char_def is_digit_def digit_val_def)
qed

lemma show_nat_digits: "list_all is_digit (show_nat n)"
proof (induction n rule: show_nat.induct)
  case (1 n)
  show ?case
  proof (cases "n < 10")
    case True
    then show ?thesis by (simp add: show_nat.simps [of n] digit_char_props)
  next
    case False
    with 1 show ?thesis by (simp add: show_nat.simps [of n] digit_char_props)
  qed
qed

lemma show_nat_nonempty: "show_nat n \<noteq> []"
  by (simp add: show_nat.simps [of n])

lemma digits_val_snoc: "digits_val (ds @ [c]) = 10 * digits_val ds + digit_val c"
  by (simp add: digits_val_def)

lemma digits_val_show_nat: "digits_val (show_nat n) = n"
proof (induction n rule: show_nat.induct)
  case (1 n)
  show ?case
  proof (cases "n < 10")
    case True
    then show ?thesis by (simp add: show_nat.simps [of n] digit_char_props digits_val_def)
  next
    case False
    with 1 show ?thesis
      by (simp add: show_nat.simps [of n] digits_val_snoc digit_char_props)
  qed
qed

lemma show_nat_leading:
  "hd (show_nat n) = CHR ''0'' \<Longrightarrow> tl (show_nat n) = []"
proof (induction n rule: show_nat.induct)
  case (1 n)
  show ?case
  proof (cases "n < 10")
    case True
    then show ?thesis by (simp add: show_nat.simps [of n])
  next
    case False
    then have "hd (show_nat n) = hd (show_nat (n div 10))"
      by (simp add: show_nat.simps [of n] show_nat_nonempty)
    with "1.prems" have z: "hd (show_nat (n div 10)) = CHR ''0''" by simp
    with 1 False have "tl (show_nat (n div 10)) = []" by simp
    with z have "show_nat (n div 10) = ''0''"
      using show_nat_nonempty [of "n div 10"] by (cases "show_nat (n div 10)") auto
    then have "digits_val (show_nat (n div 10)) = 0" by (simp add: digits_val_def digit_val_def)
    then have "n div 10 = 0" by (simp add: digits_val_show_nat)
    with False show ?thesis by simp
  qed
qed

lemma follow_ok_not_digit:
  "follow_ok rest \<Longrightarrow> rest = [] \<or> \<not> is_digit (hd rest)"
  by (auto simp: follow_ok_def is_digit_def)

lemma takeWhile_digits:
  assumes "list_all is_digit ds" and "rest = [] \<or> \<not> is_digit (hd rest)"
  shows "takeWhile is_digit (ds @ rest) = ds" and "dropWhile is_digit (ds @ rest) = rest"
proof -
  from assms(2) have r: "takeWhile is_digit rest = []" "dropWhile is_digit rest = rest"
    by (cases rest; simp)+
  from assms(1) r show "takeWhile is_digit (ds @ rest) = ds"
    and "dropWhile is_digit (ds @ rest) = rest"
    by (induction ds) simp_all
qed

lemma parse_number_nat:
  assumes "follow_ok rest" and "n < 2 ^ 53"
  shows "parse_number (show_nat n @ rest) = Inr (JNum (int n), rest)"
proof -
  have d: "is_digit (hd (show_nat n))"
    using show_nat_digits [of n] show_nat_nonempty [of n] by (cases "show_nat n") auto
  then have m: "hd (show_nat n @ rest) \<noteq> CHR ''-''"
    using show_nat_nonempty [of n] by (auto simp: is_digit_def)
  have t: "takeWhile is_digit (show_nat n @ rest) = show_nat n"
    "dropWhile is_digit (show_nat n @ rest) = rest"
    using takeWhile_digits [OF show_nat_digits follow_ok_not_digit [OF assms(1)]] by simp_all
  have f: "rest = [] \<or> \<not> (hd rest = CHR ''.'' \<or> hd rest = CHR ''e'' \<or> hd rest = CHR ''E'')"
    using assms(1) by (auto simp: follow_ok_def)
  from m t f assms(2) show ?thesis
    using show_nat_leading [of n] show_nat_nonempty [of n]
    by (auto simp: parse_number_def Let_def digits_val_show_nat)
qed

lemma parse_number_int:
  assumes "follow_ok rest" and "\<bar>i\<bar> < 2 ^ 53"
  shows "parse_number (show_int i @ rest) = Inr (JNum i, rest)"
proof (cases "i < 0")
  case False
  with assms have "nat i < 2 ^ 53" by (simp add: nat_less_iff)
  from parse_number_nat [OF assms(1) this] False show ?thesis
    by (simp add: show_int_def)
next
  case True
  let ?n = "nat (- i)"
  from True assms have b: "?n < 2 ^ 53" by (simp add: nat_less_iff)
  have t: "takeWhile is_digit (show_nat ?n @ rest) = show_nat ?n"
    "dropWhile is_digit (show_nat ?n @ rest) = rest"
    using takeWhile_digits [OF show_nat_digits follow_ok_not_digit [OF assms(1)]] by simp_all
  have f: "rest = [] \<or> \<not> (hd rest = CHR ''.'' \<or> hd rest = CHR ''e'' \<or> hd rest = CHR ''E'')"
    using assms(1) by (auto simp: follow_ok_def)
  from True t f b show ?thesis
    using show_nat_leading [of ?n] show_nat_nonempty [of ?n]
    by (auto simp: parse_number_def Let_def digits_val_show_nat show_int_def)
qed


lemma hex_val_hex_char:
  assumes "d < 16"
  shows "hex_val (hex_char d) = Some d"
proof -
  from assms have "d = 0 \<or> d = 1 \<or> d = 2 \<or> d = 3 \<or> d = 4 \<or> d = 5 \<or> d = 6 \<or> d = 7 \<or>
      d = 8 \<or> d = 9 \<or> d = 10 \<or> d = 11 \<or> d = 12 \<or> d = 13 \<or> d = 14 \<or> d = 15"
    by arith
  then show ?thesis
    by (auto simp: hex_char_def hex_val_def)
qed

lemma hex4_control:
  assumes "n < 32"
  shows "hex4 (CHR ''0'') (CHR ''0'') (hex_char (n div 16)) (hex_char (n mod 16)) = Some n"
proof -
  have z: "hex_val (CHR ''0'') = Some 0" by (simp add: hex_val_def)
  from assms have "n div 16 < 16" by simp
  then have a: "hex_val (hex_char (n div 16)) = Some (n div 16)" by (rule hex_val_hex_char)
  have b: "hex_val (hex_char (n mod 16)) = Some (n mod 16)" by (rule hex_val_hex_char) simp
  from z a b show ?thesis by (simp add: hex4_def)
qed

lemma parse_chars_quote_char:
  "parse_chars (quote_char c @ rest) = cons_char c (parse_chars rest)"
proof -
  consider (b) "c = CHR 0x08" | (t) "c = CHR 0x09" | (n) "c = CHR 0x0A" | (f) "c = CHR 0x0C"
    | (r) "c = CHR 0x0D" | (q) "c = CHR 0x22" | (s) "c = CHR 0x5C"
    | (ctl) "c \<notin> {CHR 0x08, CHR 0x09, CHR 0x0A, CHR 0x0C, CHR 0x0D, CHR 0x22, CHR 0x5C}"
        "(of_char c :: nat) < 32"
    | (plain) "c \<notin> {CHR 0x08, CHR 0x09, CHR 0x0A, CHR 0x0C, CHR 0x0D, CHR 0x22, CHR 0x5C}"
        "\<not> (of_char c :: nat) < 32"
    by blast
  then show ?thesis
  proof cases
    case ctl
    then show ?thesis
      using hex4_control [of "of_char c"]
      by (simp add: quote_char_def)
  next
    case plain
    then show ?thesis by (simp add: quote_char_def)
  qed (simp_all add: quote_char_def unescape_def)
qed

lemma parse_chars_quoted:
  "parse_chars (concat (map quote_char s) @ CHR 0x22 # rest) = Inr (s, rest)"
  by (induction s) (simp_all add: parse_chars_quote_char cons_char_def)

lemma QuoteJSONString_parse:
  "QuoteJSONString s @ rest = CHR 0x22 # concat (map quote_char s) @ CHR 0x22 # rest"
  by (simp add: QuoteJSONString_def)


lemma skip_ws_start [simp]: "\<not> is_ws c \<Longrightarrow> skip_ws (c # cs) = c # cs"
  by (simp add: skip_ws_def)

lemma is_ws_simps [simp]:
  "\<not> is_ws (CHR ''['')" "\<not> is_ws (CHR '']'')" "\<not> is_ws (CHR ''{'')" "\<not> is_ws (CHR ''}'')"
  "\<not> is_ws (CHR '','')" "\<not> is_ws (CHR '':'')" "\<not> is_ws (CHR 0x22)" "\<not> is_ws (CHR ''-'')"
  "\<not> is_ws (CHR ''t'')" "\<not> is_ws (CHR ''f'')" "\<not> is_ws (CHR ''n'')"
  by (simp_all add: is_ws_def)

lemma is_digit_not_ws: "is_digit c \<Longrightarrow> \<not> is_ws c"
  by (auto simp: is_digit_def is_ws_def)

lemma show_nat_hd_digit: "is_digit (hd (show_nat n))"
  using show_nat_digits [of n] show_nat_nonempty [of n] by (cases "show_nat n") auto

lemma show_int_start:
  "\<exists>c cs. show_int i = c # cs \<and> (c = CHR ''-'' \<or> is_digit c)"
  using show_nat_hd_digit [of "nat i"] show_nat_nonempty [of "nat i"]
  by (cases "show_nat (nat i)") (auto simp: show_int_def)

lemma is_digit_distinct:
  "is_digit c \<Longrightarrow> c \<noteq> CHR ''{'' \<and> c \<noteq> CHR ''['' \<and> c \<noteq> CHR 0x22 \<and> c \<noteq> CHR '']'' \<and> c \<noteq> CHR ''}''"
  by (auto simp: is_digit_def)

lemma parse_value_number:
  assumes "follow_ok rest" and "\<bar>i\<bar> < 2 ^ 53"
  shows "parse_value (Suc n) (show_int i @ rest) = Inr (JNum i, rest)"
proof -
  from show_int_start obtain c cs where s: "show_int i = c # cs" and c: "c = CHR ''-'' \<or> is_digit c"
    by blast
  from c have w: "\<not> is_ws c" using is_digit_not_ws by auto
  from c have d: "c \<noteq> CHR ''{'' \<and> c \<noteq> CHR ''['' \<and> c \<noteq> CHR 0x22" using is_digit_distinct by auto
  have "parse_value (Suc n) ((c # cs) @ rest) = parse_number ((c # cs) @ rest)"
    using w d c by simp
  with s parse_number_int [OF assms] show ?thesis by simp
qed

lemma parse_value_string:
  "parse_value (Suc n) (QuoteJSONString s @ rest) = Inr (JStr s, rest)"
  by (simp add: QuoteJSONString_def parse_chars_quoted)

lemma parse_value_literal:
  "parse_value (Suc n) (''null'' @ rest) = Inr (JNull, rest)"
  "parse_value (Suc n) (''true'' @ rest) = Inr (JBool True, rest)"
  "parse_value (Suc n) (''false'' @ rest) = Inr (JBool False, rest)"
  by (simp_all add: parse_literal_def is_digit_def)

lemma serialize_start:
  "SerializeJSONProperty v = Some s \<Longrightarrow> value_start s"
proof (cases v)
  case (JNum i)
  assume "SerializeJSONProperty v = Some s"
  with JNum have s: "s = show_int i" by simp
  from show_int_start obtain c cs where "show_int i = c # cs" and "c = CHR ''-'' \<or> is_digit c"
    by blast
  with s show ?thesis using is_digit_not_ws is_digit_distinct by (auto simp: value_start_def)
qed (auto simp: value_start_def QuoteJSONString_def split: if_splits)


lemma keys_ordered_append:
  "keys_ordered (ks @ [k]) =
     (keys_ordered ks \<and>
      (if is_array_index k
       then list_all (\<lambda>k'. is_array_index k' \<and> digits_val k' < digits_val k) ks
       else True))"
  by (induction ks) (auto simp: list_all_iff)

lemma keys_ordered_prefix: "keys_ordered (ks @ ks') \<Longrightarrow> keys_ordered ks"
  by (induction ks) (auto simp: list_all_iff)

lemma insert_index_last:
  "list_all (\<lambda>p. is_array_index (fst p) \<and> digits_val (fst p) < digits_val k) ps \<Longrightarrow>
   insert_index k v ps = ps @ [(k, v)]"
  by (induction ps) simp_all

lemma CreateDataProperty_last:
  assumes "distinct (map fst (acc @ [(k, v)]))" and "keys_ordered (map fst (acc @ [(k, v)]))"
  shows "CreateDataProperty k v acc = acc @ [(k, v)]"
proof -
  from assms(1) have n: "map_of acc k = None"
    by (simp add: map_of_eq_None_iff)
  show ?thesis
  proof (cases "is_array_index k")
    case True
    with assms(2) have "list_all (\<lambda>k'. is_array_index k' \<and> digits_val k' < digits_val k) (map fst acc)"
      by (simp add: keys_ordered_append)
    then have "list_all (\<lambda>p. is_array_index (fst p) \<and> digits_val (fst p) < digits_val k) acc"
      by (simp add: list_all_iff)
    with n True show ?thesis by (simp add: CreateDataProperty_def insert_index_last)
  next
    case False
    with n show ?thesis by (simp add: CreateDataProperty_def)
  qed
qed

lemma parse_elements_last:
  assumes "parse_value n (s @ CHR '']'' # rest) = Inr (v, CHR '']'' # rest)"
  shows "parse_elements (Suc n) acc (s @ CHR '']'' # rest) = Inr (JArr (acc @ [v]), rest)"
  using assms by simp

lemma parse_elements_more:
  assumes "parse_value n (s @ CHR '','' # later) = Inr (v, CHR '','' # later)"
  shows "parse_elements (Suc n) acc (s @ CHR '','' # later) = parse_elements n (acc @ [v]) later"
  using assms by simp

lemma parse_members_last:
  assumes "parse_value n (s @ CHR ''}'' # rest) = Inr (v, CHR ''}'' # rest)"
  shows "parse_members (Suc n) acc (QuoteJSONString k @ CHR '':'' # s @ CHR ''}'' # rest) =
           Inr (JObj (CreateDataProperty k v acc), rest)"
  using assms by (simp add: QuoteJSONString_def parse_chars_quoted)

lemma parse_members_more:
  assumes "parse_value n (s @ CHR '','' # later) = Inr (v, CHR '','' # later)"
  shows "parse_members (Suc n) acc (QuoteJSONString k @ CHR '':'' # s @ CHR '','' # later) =
           parse_members n (CreateDataProperty k v acc) later"
  using assms by (simp add: QuoteJSONString_def parse_chars_quoted)

lemma follow_ok_simps [simp]:
  "follow_ok []" "follow_ok (CHR '','' # r)" "follow_ok (CHR '']'' # r)" "follow_ok (CHR ''}'' # r)"
  by (simp_all add: follow_ok_def)

lemma parse_value_open_array:
  assumes "value_start s"
  shows "parse_value (Suc n) (CHR ''['' # s @ rest) = parse_elements n [] (s @ rest)"
proof -
  from assms obtain c cs where s: "s = c # cs" and c: "\<not> is_ws c" "c \<noteq> CHR '']''"
    by (cases s) (auto simp: value_start_def)
  then show ?thesis by simp
qed

lemma parse_value_open_object:
  assumes "value_start s"
  shows "parse_value (Suc n) (CHR ''{'' # s @ rest) = parse_members n [] (s @ rest)"
proof -
  from assms obtain c cs where s: "s = c # cs" and c: "\<not> is_ws c" "c \<noteq> CHR ''}''"
    by (cases s) (auto simp: value_start_def)
  then show ?thesis by simp
qed

lemma value_start_quote: "value_start (QuoteJSONString k @ r)"
  by (simp add: value_start_def QuoteJSONString_def)

lemma value_start_append: "value_start s \<Longrightarrow> value_start (s @ r)"
  by (cases s) (auto simp: value_start_def)

lemma is_json_serialize: "is_json v \<Longrightarrow> \<exists>s. SerializeJSONProperty v = Some s"
  by (cases v) simp_all


lemma SerializeJSONArray_json:
  "is_json v \<Longrightarrow> SerializeJSONArray (v # vs) = the (SerializeJSONProperty v) # SerializeJSONArray vs"
  by (cases v) simp_all

lemma SerializeJSONObject_json:
  "is_json (snd p) \<Longrightarrow>
   SerializeJSONObject (p # ps) =
     (QuoteJSONString (fst p) @ CHR '':'' # the (SerializeJSONProperty (snd p))) # SerializeJSONObject ps"
  by (cases "snd p") simp_all

lemma SerializeJSONArray_Nil: "(SerializeJSONArray vs = []) = (vs = [])"
  by (cases vs) simp_all

lemma SerializeJSONObject_Nil: "is_json_props ps \<Longrightarrow> (SerializeJSONObject ps = []) = (ps = [])"
  by (cases ps) (auto dest: is_json_serialize)

lemma join_commas_Cons:
  "join_commas (x # xs) = (if xs = [] then x else x @ CHR '','' # join_commas xs)"
  by (cases xs) simp_all

lemma value_start_elements:
  assumes "is_json_list vs" and "vs \<noteq> []"
  shows "value_start (join_commas (SerializeJSONArray vs))"
proof -
  from assms obtain v ws where vs: "vs = v # ws" and v: "is_json v" by (cases vs) auto
  from is_json_serialize [OF v] obtain sv where sv: "SerializeJSONProperty v = Some sv" by blast
  from serialize_start [OF sv] have "value_start sv" .
  with vs sv show ?thesis
    by (simp add: join_commas_Cons value_start_append)
qed

lemma value_start_members:
  assumes "is_json_props ps" and "ps \<noteq> []"
  shows "value_start (join_commas (SerializeJSONObject ps))"
proof -
  from assms obtain q qs where ps: "ps = q # qs" and q: "is_json (snd q)" by (cases ps) auto
  from is_json_serialize [OF q] obtain sv where sv: "SerializeJSONProperty (snd q) = Some sv"
    by blast
  with ps show ?thesis
    using value_start_quote
    by (simp add: join_commas_Cons)
qed

lemma roundtrip_mutual:
  "is_json v \<longrightarrow>
     (\<forall>n rest. nodes v \<le> n \<longrightarrow> follow_ok rest \<longrightarrow>
        parse_value n (the (SerializeJSONProperty v) @ rest) = Inr (v, rest))"
  "is_json_list vs \<longrightarrow> vs \<noteq> [] \<longrightarrow>
     (\<forall>n acc rest. nodes_list vs \<le> n \<longrightarrow>
        parse_elements n acc (join_commas (SerializeJSONArray vs) @ CHR '']'' # rest) =
          Inr (JArr (acc @ vs), rest))"
  "is_json_props ps \<longrightarrow> ps \<noteq> [] \<longrightarrow>
     (\<forall>n acc rest. nodes_props ps \<le> n \<longrightarrow>
        distinct (map fst (acc @ ps)) \<longrightarrow> keys_ordered (map fst (acc @ ps)) \<longrightarrow>
        parse_members n acc (join_commas (SerializeJSONObject ps) @ CHR ''}'' # rest) =
          Inr (JObj (acc @ ps), rest))"
proof (induction v and vs and ps
    rule: SerializeJSONProperty_SerializeJSONArray_SerializeJSONObject.induct)
  case 1
  show ?case by simp
next
  case 2
  show ?case
  proof (intro impI allI)
    fix n rest assume "nodes JNull \<le> n"
    then obtain n' where "n = Suc n'" by (cases n) auto
    then show "parse_value n (the (SerializeJSONProperty JNull) @ rest) = Inr (JNull, rest)"
      using parse_value_literal(1) by simp
  qed
next
  case (3 b)
  show ?case
  proof (intro impI allI)
    fix n rest assume "nodes (JBool b) \<le> n"
    then obtain n' where "n = Suc n'" by (cases n) auto
    then show "parse_value n (the (SerializeJSONProperty (JBool b)) @ rest) = Inr (JBool b, rest)"
      using parse_value_literal(2,3) by (cases b) simp_all
  qed
next
  case (4 i)
  show ?case
  proof (intro impI allI)
    fix n rest assume j: "is_json (JNum i)" and "nodes (JNum i) \<le> n" and f: "follow_ok rest"
    then obtain n' where "n = Suc n'" by (cases n) auto
    with j f show "parse_value n (the (SerializeJSONProperty (JNum i)) @ rest) = Inr (JNum i, rest)"
      using parse_value_number by simp
  qed
next
  case (5 s)
  show ?case
  proof (intro impI allI)
    fix n rest assume "nodes (JStr s) \<le> n"
    then obtain n' where "n = Suc n'" by (cases n) auto
    then show "parse_value n (the (SerializeJSONProperty (JStr s)) @ rest) = Inr (JStr s, rest)"
      using parse_value_string by simp
  qed
next
  case (6 vs)
  show ?case
  proof (intro impI allI)
    fix n rest assume j: "is_json (JArr vs)" and n: "nodes (JArr vs) \<le> n"
    then obtain n' where n': "n = Suc n'" "nodes_list vs \<le> n'" by (cases n) auto
    show "parse_value n (the (SerializeJSONProperty (JArr vs)) @ rest) = Inr (JArr vs, rest)"
    proof (cases "vs = []")
      case True
      with n' show ?thesis by simp
    next
      case False
      from j have jl: "is_json_list vs" by simp
      from value_start_elements [OF jl False]
      have "parse_value (Suc n') (CHR ''['' # join_commas (SerializeJSONArray vs) @ CHR '']'' # rest)
          = parse_elements n' [] (join_commas (SerializeJSONArray vs) @ CHR '']'' # rest)"
        by (rule parse_value_open_array)
      also from 6 jl False n' have "\<dots> = Inr (JArr ([] @ vs), rest)" by blast
      finally show ?thesis using n' by simp
    qed
  qed
next
  case (7 ps)
  show ?case
  proof (intro impI allI)
    fix n rest assume j: "is_json (JObj ps)" and n: "nodes (JObj ps) \<le> n"
    then obtain n' where n': "n = Suc n'" "nodes_props ps \<le> n'" by (cases n) auto
    show "parse_value n (the (SerializeJSONProperty (JObj ps)) @ rest) = Inr (JObj ps, rest)"
    proof (cases "ps = []")
      case True
      with n' show ?thesis by simp
    next
      case False
      from j have jl: "is_json_props ps" and d: "distinct (map fst ([] @ ps))"
        and k: "keys_ordered (map fst ([] @ ps))" by simp_all
      from value_start_members [OF jl False]
      have "parse_value (Suc n') (CHR ''{'' # join_commas (SerializeJSONObject ps) @ CHR ''}'' # rest)
          = parse_members n' [] (join_commas (SerializeJSONObject ps) @ CHR ''}'' # rest)"
        by (rule parse_value_open_object)
      also from 7 jl False n' d k have "\<dots> = Inr (JObj ([] @ ps), rest)" by blast
      finally show ?thesis using n' by simp
    qed
  qed
next
  case 8
  show ?case by simp
next
  case (9 v vs)
  show ?case
  proof (intro impI allI)
    fix n acc rest
    assume j: "is_json_list (v # vs)" and n: "nodes_list (v # vs) \<le> n"
    then obtain n' where n': "n = Suc n'" "nodes v \<le> n'" "nodes_list vs \<le> n'" by (cases n) auto
    from j have jv: "is_json v" and jl: "is_json_list vs" by simp_all
    from is_json_serialize [OF jv] obtain sv where sv: "SerializeJSONProperty v = Some sv"
      by blast
    show "parse_elements n acc (join_commas (SerializeJSONArray (v # vs)) @ CHR '']'' # rest) =
          Inr (JArr (acc @ v # vs), rest)"
    proof (cases "vs = []")
      case True
      from 9(1) jv n' sv have "parse_value n' (sv @ CHR '']'' # rest) = Inr (v, CHR '']'' # rest)"
        by simp
      from parse_elements_last [OF this, of acc] True n' sv show ?thesis
        by simp
    next
      case False
      let ?later = "join_commas (SerializeJSONArray vs) @ CHR '']'' # rest"
      from 9(1) jv n' sv have "parse_value n' (sv @ CHR '','' # ?later) = Inr (v, CHR '','' # ?later)"
        by simp
      from parse_elements_more [OF this]
      have "parse_elements (Suc n') acc (sv @ CHR '','' # ?later) =
          parse_elements n' (acc @ [v]) ?later" .
      also from 9(2) jl False n' have "\<dots> = Inr (JArr ((acc @ [v]) @ vs), rest)" by blast
      finally show ?thesis using False n' sv
        by (simp add: join_commas_Cons SerializeJSONArray_Nil)
    qed
  qed
next
  case 10
  show ?case by simp
next
  case (11 p ps)
  show ?case
  proof (intro impI allI)
    fix n acc rest
    assume j: "is_json_props (p # ps)" and n: "nodes_props (p # ps) \<le> n"
      and d: "distinct (map fst (acc @ p # ps))" and k: "keys_ordered (map fst (acc @ p # ps))"
    then obtain n' where n': "n = Suc n'" "nodes (snd p) \<le> n'" "nodes_props ps \<le> n'"
      by (cases n) auto
    from j have jv: "is_json (snd p)" and jl: "is_json_props ps" by simp_all
    from is_json_serialize [OF jv] obtain sv where sv: "SerializeJSONProperty (snd p) = Some sv"
      by blast
    from d have d1: "distinct (map fst (acc @ [(fst p, snd p)]))" by simp
    from k have "keys_ordered (map fst (acc @ [(fst p, snd p)]) @ map fst ps)" by simp
    then have k1: "keys_ordered (map fst (acc @ [(fst p, snd p)]))" by (rule keys_ordered_prefix)
    from CreateDataProperty_last [OF d1 k1]
    have c: "CreateDataProperty (fst p) (snd p) acc = acc @ [p]" by simp
    show "parse_members n acc (join_commas (SerializeJSONObject (p # ps)) @ CHR ''}'' # rest) =
          Inr (JObj (acc @ p # ps), rest)"
    proof (cases "ps = []")
      case True
      from 11(1) jv n' sv have "parse_value n' (sv @ CHR ''}'' # rest) = Inr (snd p, CHR ''}'' # rest)"
        by simp
      from parse_members_last [OF this, of acc "fst p"] True n' sv c show ?thesis
        by simp
    next
      case False
      let ?later = "join_commas (SerializeJSONObject ps) @ CHR ''}'' # rest"
      from 11(1) jv n' sv have "parse_value n' (sv @ CHR '','' # ?later) = Inr (snd p, CHR '','' # ?later)"
        by simp
      from parse_members_more [OF this, of acc "fst p"] c
      have "parse_members (Suc n') acc (QuoteJSONString (fst p) @ CHR '':'' # sv @ CHR '','' # ?later) =
          parse_members n' (acc @ [p]) ?later" by simp
      also from 11(3) [OF sv] jl False n' d k
      have "\<dots> = Inr (JObj ((acc @ [p]) @ ps), rest)" by simp
      finally show ?thesis using False jl n' sv
        by (simp add: join_commas_Cons SerializeJSONObject_Nil)
    qed
  qed
qed


lemma length_join_commas_Cons:
  "length (join_commas (x # xs)) =
     length x + (if xs = [] then 0 else Suc (length (join_commas xs)))"
  by (simp add: join_commas_Cons)

lemma nodes_bound:
  "is_json v \<longrightarrow> nodes v \<le> length (the (SerializeJSONProperty v))"
  "is_json_list vs \<longrightarrow> nodes_list vs \<le> Suc (length (join_commas (SerializeJSONArray vs)))"
  "is_json_props ps \<longrightarrow> nodes_props ps \<le> Suc (length (join_commas (SerializeJSONObject ps)))"
proof (induction v and vs and ps
    rule: SerializeJSONProperty_SerializeJSONArray_SerializeJSONObject.induct)
  case (4 i)
  from show_int_start obtain c cs where "show_int i = c # cs" by blast
  then show ?case by simp
next
  case (5 s)
  show ?case by (simp add: QuoteJSONString_def)
next
  case (9 v vs)
  show ?case
  proof
    assume j: "is_json_list (v # vs)"
    then have jv: "is_json v" and jl: "is_json_list vs" by simp_all
    from is_json_serialize [OF jv] obtain sv where sv: "SerializeJSONProperty v = Some sv" by blast
    from 9 jv jl sv have "nodes v \<le> length sv"
      and "nodes_list vs \<le> Suc (length (join_commas (SerializeJSONArray vs)))" by simp_all
    then show "nodes_list (v # vs) \<le> Suc (length (join_commas (SerializeJSONArray (v # vs))))"
      using sv by (cases "vs = []") (simp_all add: length_join_commas_Cons SerializeJSONArray_Nil)
  qed
next
  case (11 p ps)
  show ?case
  proof
    assume j: "is_json_props (p # ps)"
    then have jv: "is_json (snd p)" and jl: "is_json_props ps" by simp_all
    from is_json_serialize [OF jv] obtain sv where sv: "SerializeJSONProperty (snd p) = Some sv"
      by blast
    from 11(1) jv sv have "nodes (snd p) \<le> length sv" by simp
    moreover from 11(3) [OF sv] jl
    have "nodes_props ps \<le> Suc (length (join_commas (SerializeJSONObject ps)))" by simp
    ultimately
    show "nodes_props (p # ps) \<le> Suc (length (join_commas (SerializeJSONObject (p # ps))))"
      using sv jl
      by (cases "ps = []") (simp_all add: length_join_commas_Cons SerializeJSONObject_Nil)
  qed
qed simp_all

theorem JSON_roundtrip:
  assumes "is_json v"
  shows "\<exists>raw. JSON_stringify v = Some raw \<and> JSON_parse raw = Inr v"
proof -
  from is_json_serialize [OF assms] obtain raw where t: "SerializeJSONProperty v = Some raw"
    by blast
  from nodes_bound(1) assms t have "nodes v \<le> Suc (length raw)" by fastforce
  with roundtrip_mutual(1) [of v] assms t
  have "parse_value (Suc (length raw)) (raw @ []) = Inr (v, [])"
    by (metis follow_ok_simps(1) option.sel)
  then have "JSON_parse raw = Inr v"
    by (simp add: JSON_parse_def skip_ws_def)
  with t show ?thesis by (simp add: JSON_stringify_def)
qed

lemma SerializeJSONProperty_None: "(SerializeJSONProperty v = None) = (v = JUndefined)"
  by (cases v) simp_all

lemma SerializeJSONObject_filter:
  "SerializeJSONObject (filter (\<lambda>p. snd p \<noteq> JUndefined) ps) = SerializeJSONObject ps"
proof (induction ps)
  case Nil
  show ?case by simp
next
  case (Cons p ps)
  then show ?case
    by (cases "snd p = JUndefined") (auto simp: SerializeJSONProperty_None split: option.splits)
qed


lemma not_index_keys [simp]:
  "\<not> is_array_index ''id''" "\<not> is_array_index ''type''" "\<not> is_array_index ''procedure''"
  "\<not> is_array_index ''data''" "\<not> is_array_index ''timestamp''" "\<not> is_array_index ''event''"
  "\<not> is_array_index ''error''" "\<not> is_array_index ''message''" "\<not> is_array_index ''code''"
  by (simp_all add: is_array_index_def is_digit_def)

lemma object_roundtrip:
  assumes "is_json (JObj (filter (\<lambda>p. snd p \<noteq> JUndefined) ps))"
  shows "\<exists>raw. defaultSerializer (JObj ps) = Some raw \<and>
           defaultDeserializer raw = Inr (JObj (filter (\<lambda>p. snd p \<noteq> JUndefined) ps))"
proof -
  from JSON_roundtrip [OF assms] obtain raw
    where "JSON_stringify (JObj (filter (\<lambda>p. snd p \<noteq> JUndefined) ps)) = Some raw"
      and "JSON_parse raw = Inr (JObj (filter (\<lambda>p. snd p \<noteq> JUndefined) ps))" by blast
  then show ?thesis
    by (simp add: defaultSerializer_def defaultDeserializer_def JSON_stringify_def
        SerializeJSONObject_filter)
qed

lemma get_property_filter:
  "get_property (JObj (filter (\<lambda>p. snd p \<noteq> JUndefined) ps)) k = get_property (JObj ps) k"
  if "distinct (map fst ps)"
  using that
proof (induction ps)
  case Nil
  show ?case by simp
next
  case (Cons p ps)
  then have "map_of ps (fst p) = None" by (simp add: map_of_eq_None_iff)
  moreover have "map_of (filter (\<lambda>p. snd p \<noteq> JUndefined) ps) (fst p) = None"
    using Cons.prems by (auto simp: map_of_eq_None_iff)
  ultimately show ?case using Cons
    by (cases p) (auto simp: get_property_def split: option.splits)
qed


lemma request_roundtrip:
  assumes "payload_ok (req_data m)" and "timestamp_ok (req_timestamp m)"
  shows "\<exists>raw v. defaultSerializer (request_object m) = Some raw \<and>
           defaultDeserializer raw = Inr v \<and>
           get_property v ''id'' = JStr (req_id m) \<and>
           get_property v ''type'' = JStr ''request'' \<and>
           get_property v ''procedure'' = JStr (req_procedure m) \<and>
           get_property v ''data'' = req_data m"
proof -
  let ?ps = "[(''id'', JStr (req_id m)), (''type'', JStr ''request''),
            (''procedure'', JStr (req_procedure m)), (''data'', req_data m)] @
           timestamp_property (req_timestamp m)"
  have d: "distinct (map fst ?ps)"
    by (simp add: timestamp_property_def split: option.splits)
  from assms have "is_json (JObj (filter (\<lambda>p. snd p \<noteq> JUndefined) ?ps))"
    by (auto simp: payload_ok_def timestamp_ok_def timestamp_property_def split: option.splits)
  from object_roundtrip [OF this] obtain raw
    where r: "defaultSerializer (JObj ?ps) = Some raw"
      "defaultDeserializer raw = Inr (JObj (filter (\<lambda>p. snd p \<noteq> JUndefined) ?ps))" by blast
  have "get_property (JObj ?ps) ''id'' = JStr (req_id m)"
    "get_property (JObj ?ps) ''type'' = JStr ''request''"
    "get_property (JObj ?ps) ''procedure'' = JStr (req_procedure m)"
    "get_property (JObj ?ps) ''data'' = req_data m"
    by (simp_all add: get_property_def)
  with r get_property_filter [OF d] show ?thesis
    unfolding request_object_def by metis
qed


lemma response_roundtrip:
  assumes "payload_ok (res_data m)" and "timestamp_ok (res_timestamp m)"
  shows "\<exists>raw v. defaultSerializer (response_object m) = Some raw \<and>
           defaultDeserializer raw = Inr v \<and>
           get_property v ''id'' = JStr (res_id m) \<and>
           get_property v ''type'' = JStr ''response'' \<and>
           get_property v ''data'' = res_data m \<and>
           get_property v ''error'' =
             (case res_error m of None \<Rightarrow> JUndefined | Some e \<Rightarrow> error_object e)"
proof -
  let ?ps = "[(''id'', JStr (res_id m)), (''type'', JStr ''response''), (''data'', res_data m),
            (''error'', (case res_error m of None \<Rightarrow> JUndefined | Some e \<Rightarrow> error_object e))] @
           timestamp_property (res_timestamp m)"
  have d: "distinct (map fst ?ps)"
    by (simp add: timestamp_property_def split: option.splits)
  from assms have "is_json (JObj (filter (\<lambda>p. snd p \<noteq> JUndefined) ?ps))"
    by (auto simp: payload_ok_def timestamp_ok_def timestamp_property_def error_object_def
        split: option.splits)
  from object_roundtrip [OF this] obtain raw
    where r: "defaultSerializer (JObj ?ps) = Some raw"
      "defaultDeserializer raw = Inr (JObj (filter (\<lambda>p. snd p \<noteq> JUndefined) ?ps))" by blast
  have "get_property (JObj ?ps) ''id'' = JStr (res_id m)"
    "get_property (JObj ?ps) ''type'' = JStr ''response''"
    "get_property (JObj ?ps) ''data'' = res_data m"
    "get_property (JObj ?ps) ''error'' =
       (case res_error m of None \<Rightarrow> JUndefined | Some e \<Rightarrow> error_object e)"
    by (simp_all add: get_property_def)
  with r get_property_filter [OF d] show ?thesis
    unfolding response_object_def by metis
qed

lemma event_roundtrip:
  assumes "payload_ok (evt_data m)" and "timestamp_ok (evt_timestamp m)"
  shows "\<exists>raw v. defaultSerializer (event_object m) = Some raw \<and>
           defaultDeserializer raw = Inr v \<and>
           get_property v ''id'' = JStr (evt_id m) \<and>
           get_property v ''type'' = JStr ''event'' \<and>
           get_property v ''event'' = JStr (evt_event m) \<and>
           get_property v ''data'' = evt_data m"
proof -
  let ?ps = "[(''id'', JStr (evt_id m)), (''type'', JStr ''event''),
            (''event'', JStr (evt_event m)), (''data'', evt_data m)] @
           timestamp_property (evt_timestamp m)"
  have d: "distinct (map fst ?ps)"
    by (simp add: timestamp_property_def split: option.splits)
  from assms have "is_json (JObj (filter (\<lambda>p. snd p \<noteq> JUndefined) ?ps))"
    by (auto simp: payload_ok_def timestamp_ok_def timestamp_property_def split: option.splits)
  from object_roundtrip [OF this] obtain raw
    where r: "defaultSerializer (JObj ?ps) = Some raw"
      "defaultDeserializer raw = Inr (JObj (filter (\<lambda>p. snd p \<noteq> JUndefined) ?ps))" by blast
  have "get_property (JObj ?ps) ''id'' = JStr (evt_id m)"
    "get_property (JObj ?ps) ''type'' = JStr ''event''"
    "get_property (JObj ?ps) ''event'' = JStr (evt_event m)"
    "get_property (JObj ?ps) ''data'' = evt_data m"
    by (simp_all add: get_property_def)
  with r get_property_filter [OF d] show ?thesis
    unfolding event_object_def by metis
qed

text \<open>
  C9, as amended.  For a request, a response or an event whose payload is \<open>undefined\<close> or
  JSON data (\<open>is_json\<close>) and whose timestamp, if any, is below \<open>2^53\<close>: the default
  serializer gives a text for the message object, the default deserializer reads that text
  as a value, and that value's \<open>type\<close>, \<open>id\<close>, \<open>procedure\<close> or \<open>event\<close>, \<open>data\<close> and,
  for a response, \<open>error\<close> are those of the message.
\<close>

theorem default_encoding_round_trip:
  "(payload_ok (req_data rq) \<and> timestamp_ok (req_timestamp rq) \<longrightarrow>
      (\<exists>raw v. defaultSerializer (request_object rq) = Some raw \<and>
           defaultDeserializer raw = Inr v \<and>
           get_property v ''id'' = JStr (req_id rq) \<and>
           get_property v ''type'' = JStr ''request'' \<and>
           get_property v ''procedure'' = JStr (req_procedure rq) \<and>
           get_property v ''data'' = req_data rq)) \<and>
   (payload_ok (res_data rs) \<and> timestamp_ok (res_timestamp rs) \<longrightarrow>
      (\<exists>raw v. defaultSerializer (response_object rs) = Some raw \<and>
           defaultDeserializer raw = Inr v \<and>
           get_property v ''id'' = JStr (res_id rs) \<and>
           get_property v ''type'' = JStr ''response'' \<and>
           get_property v ''data'' = res_data rs \<and>
           get_property v ''error'' =
             (case res_error rs of None \<Rightarrow> JUndefined | Some e \<Rightarrow> error_object e))) \<and>
   (payload_ok (evt_data ev) \<and> timestamp_ok (evt_timestamp ev) \<longrightarrow>
      (\<exists>raw v. defaultSerializer (event_object ev) = Some raw \<and>
           defaultDeserializer raw = Inr v \<and>
           get_property v ''id'' = JStr (evt_id ev) \<and>
           get_property v ''type'' = JStr ''event'' \<and>
           get_property v ''event'' = JStr (evt_event ev) \<and>
           get_property v ''data'' = evt_data ev))"
  using request_roundtrip [of rq] response_roundtrip [of rs] event_roundtrip [of ev]
  by blast

theorem default_encoding_round_trip_witness:
  "payload_ok (req_data example_request) \<and> timestamp_ok (req_timestamp example_request) \<and>
   (\<exists>raw v. defaultSerializer (request_object example_request) = Some raw \<and>
        defaultDeserializer raw = Inr v \<and>
        get_property v ''type'' = JStr ''request'' \<and>
        get_property v ''procedure'' = JStr ''navigate'' \<and>
        get_property v ''data'' =
          JObj [(''path'', JStr ''/home''), (''tags'', JArr [JNum 1, JBool True, JNull])]) \<and>
   payload_ok (res_data (example_response ''a'')) \<and>
   timestamp_ok (res_timestamp (example_response ''a'')) \<and>
   (\<exists>raw v. defaultSerializer (response_object (example_response ''a'')) = Some raw \<and>
        defaultDeserializer raw = Inr v \<and>
        get_property v ''type'' = JStr ''response'' \<and>
        get_property v ''data'' = JStr ''ok'') \<and>
   payload_ok (evt_data \<lparr>evt_id = ''e'', evt_event = ''appStateChange'', evt_data = JUndefined,
      evt_timestamp = None\<rparr>) \<and>
   (\<exists>raw v. defaultSerializer (event_object \<lparr>evt_id = ''e'', evt_event = ''appStateChange'',
          evt_data = JUndefined, evt_timestamp = None\<rparr>) = Some raw \<and>
        defaultDeserializer raw = Inr v \<and>
        get_property v ''type'' = JStr ''event'' \<and>
        get_property v ''event'' = JStr ''appStateChange'' \<and>
        get_property v ''data'' = JUndefined)"
proof -
  let ?ev = "\<lparr>evt_id = ''e'', evt_event = ''appStateChange'', evt_data = JUndefined,
      evt_timestamp = None\<rparr>"
  have 1: "payload_ok (req_data example_request) \<and> timestamp_ok (req_timestamp example_request)"
    by (simp add: example_request_def payload_ok_def timestamp_ok_def is_array_index_def
        is_digit_def)
  have 2: "payload_ok (res_data (example_response ''a'')) \<and>
      timestamp_ok (res_timestamp (example_response ''a''))"
    by (simp add: example_response_def payload_ok_def timestamp_ok_def)
  have 3: "payload_ok (evt_data ?ev) \<and> timestamp_ok (evt_timestamp ?ev)"
    by (simp add: payload_ok_def timestamp_ok_def)
  from default_encoding_round_trip
    [where rq = example_request and rs = "example_response ''a''" and ev = ?ev] 1 2 3
  show ?thesis
    by (simp add: example_request_def example_response_def) blast
qed

text \<open>
  C9 as stated fails for a payload that is not JSON data: the array \<open>[undefined]\<close> is
  written \<open>[null]\<close> and read back as \<open>[null]\<close>.
\<close>

theorem default_encoding_turns_undefined_into_null:
  \<open>defaultSerializer (request_object undefined_in_array_request) =
     Some ''{"id":"a","type":"request","procedure":"p","data":[null]}'' \<and>
   defaultDeserializer ''{"id":"a","type":"request","procedure":"p","data":[null]}'' =
     Inr (JObj [(''id'', JStr ''a''), (''type'', JStr ''request''), (''procedure'', JStr ''p''),
        (''data'', JArr [JNull])]) \<and>
   get_property (JObj [(''id'', JStr ''a''), (''type'', JStr ''request''),
        (''procedure'', JStr ''p''), (''data'', JArr [JNull])]) ''data'' = JArr [JNull] \<and>
   req_data undefined_in_array_request = JArr [JUndefined] \<and>
   JArr [JNull] \<noteq> req_data undefined_in_array_request\<close>
proof -
  have 1: \<open>defaultSerializer (request_object undefined_in_array_request) =
     Some ''{"id":"a","type":"request","procedure":"p","data":[null]}''\<close>
    by (simp add: defaultSerializer_def JSON_stringify_def request_object_def
      undefined_in_array_request_def timestamp_property_def QuoteJSONString_def quote_char_def)
  have 2: \<open>defaultDeserializer ''{"id":"a","type":"request","procedure":"p","data":[null]}'' =
     Inr (JObj [(''id'', JStr ''a''), (''type'', JStr ''request''), (''procedure'', JStr ''p''),
        (''data'', JArr [JNull])])\<close>
    by (simp add: defaultDeserializer_def JSON_parse_def parse_literal_def CreateDataProperty_def
     is_array_index_def is_digit_def cons_char_def skip_ws_def)
  from 1 2 show ?thesis
    by (simp add: get_property_def undefined_in_array_request_def)
qed


end
